theory Spec2Isabelle
  imports Main
begin

section \<open>JavaScript strings\<close>

text \<open>
  A JavaScript string is a sequence of UTF-16 code units. The export writes the code unit
  U+FEFF, which no 8-bit character holds, so a string is a list of code units as natural
  numbers; \<open>js\<close> turns a literal of the source into one.
\<close>

type_synonym jstring = "nat list"

definition js :: "string \<Rightarrow> jstring" where
  "js s = map of_char s"

text \<open>\<open>String.prototype.trim\<close> strips the ECMAScript WhiteSpace and LineTerminator
  code units from both ends; U+FEFF (65279) is one of them.\<close>

definition isWhiteSpace :: "nat \<Rightarrow> bool" where
  "isWhiteSpace c = (c = 9 \<or> c = 10 \<or> c = 11 \<or> c = 12 \<or> c = 13 \<or> c = 32 \<or> c = 160
     \<or> c = 5760 \<or> (8192 \<le> c \<and> c \<le> 8202) \<or> c = 8232 \<or> c = 8233 \<or> c = 8239
     \<or> c = 8287 \<or> c = 12288 \<or> c = 65279)"

definition trimStart :: "jstring \<Rightarrow> jstring" where
  "trimStart s = dropWhile isWhiteSpace s"

definition trimEnd :: "jstring \<Rightarrow> jstring" where
  "trimEnd s = rev (dropWhile isWhiteSpace (rev s))"

definition trim :: "jstring \<Rightarrow> jstring" where
  "trim s = trimEnd (trimStart s)"

text \<open>\<open>toLowerCase\<close> on the code units up to U+00FF: the letters A-Z and the Latin-1
  capitals U+00C0-U+00DE (U+00D7, the multiplication sign, apart) move up by 32. The case
  tables of higher code units are not modelled; those units are left as they are.\<close>

definition lowerUnit :: "nat \<Rightarrow> nat" where
  "lowerUnit c = (if (65 \<le> c \<and> c \<le> 90) \<or> (192 \<le> c \<and> c \<le> 222 \<and> c \<noteq> 215) then c + 32 else c)"

definition toLowerCase :: "jstring \<Rightarrow> jstring" where
  "toLowerCase s = map lowerUnit s"

fun startsWith :: "jstring \<Rightarrow> jstring \<Rightarrow> bool" where
  "startsWith s [] = True"
| "startsWith [] (p # ps) = False"
| "startsWith (c # s) (p # ps) = (c = p \<and> startsWith s ps)"

text \<open>\<open>s.includes(p)\<close>: \<open>p\<close> occurs in \<open>s\<close> as a contiguous run.\<close>

fun includesStr :: "jstring \<Rightarrow> jstring \<Rightarrow> bool" where
  "includesStr [] p = (p = [])"
| "includesStr (c # s) p = (startsWith (c # s) p \<or> includesStr s p)"

text \<open>\<open>s.split('\n')\<close>; the empty string splits into one empty piece.\<close>

fun splitLines :: "jstring \<Rightarrow> jstring list" where
  "splitLines [] = [[]]"
| "splitLines (c # s) =
     (if c = 10 then [] # splitLines s
      else (case splitLines s of [] \<Rightarrow> [[c]] | l # ls \<Rightarrow> (c # l) # ls))"

text \<open>\<open>values.join(',')\<close>.\<close>

fun joinComma :: "jstring list \<Rightarrow> jstring" where
  "joinComma [] = []"
| "joinComma [v] = v"
| "joinComma (v # w # vs) = v @ 44 # joinComma (w # vs)"

text \<open>\<open>String(n)\<close> for a non-negative integer and for an integer: decimal digits.\<close>

fun digits :: "nat \<Rightarrow> jstring" where
  "digits n = (if n < 10 then [48 + n] else digits (n div 10) @ [48 + n mod 10])"

declare digits.simps [simp del]

definition showInt :: "int \<Rightarrow> jstring" where
  "showInt i = (if i < 0 then 45 # digits (nat (- i)) else digits (nat i))"

text \<open>\<open>s.padStart(2, '0')\<close>.\<close>

definition padStart2 :: "jstring \<Rightarrow> jstring" where
  "padStart2 s = replicate (2 - length s) 48 @ s"

text \<open>A value is falsy as a string when it is \<open>null\<close> (\<open>None\<close>) or the empty string.\<close>

definition falsyStr :: "jstring option \<Rightarrow> bool" where
  "falsyStr v = (v = None \<or> v = Some [])"

section \<open>The platform\<close>

text \<open>
  The fetched item (\<open>GmailClient.parseEmail\<close> builds it); \<open>sender\<close> is the field
  \<open>from\<close> of the source, \<open>date\<close> the ISO string \<open>parseEmailDate\<close> returns.
\<close>

record email =
  messageId :: jstring
  subject :: jstring
  sender :: jstring
  date :: jstring
  body :: jstring

text \<open>The two prompts embed the item; only which prompt and which item is kept.\<close>

datatype prompt = CategorizationPrompt email | ExtractionPrompt email

text \<open>A \<open>Date\<close> object as the getters of the source read it: local calendar fields and
  the time value. \<open>getMonth\<close> counts from 0.\<close>

record jsDate =
  getTime :: int
  getFullYear :: int
  getMonth :: nat
  getDate :: nat
  getHours :: nat
  getMinutes :: nat
  getSeconds :: nat

text \<open>What \<open>JSON.parse\<close> yields for a property, as far as \<open>cleanValue\<close> tells values
  apart: \<open>JObject\<close> stands for any object or array, \<open>JUndefined\<close> for a missing
  property.\<close>

datatype jsval = JUndefined | JNull | JBool bool | JNum int | JStr jstring | JObject

text \<open>
  The collaborators outside the repository, as the run meets them:
  \<^item> \<open>callAI n p\<close>: the backend's answer to the \<open>n\<close>-th call of the run, a response
    text (\<open>Inr\<close>) or a thrown error's message (\<open>Inl\<close>);
  \<^item> \<open>JSON_parse\<close>: \<open>JSON.parse\<close> on an object text, \<open>None\<close> for a SyntaxError,
    else the object as its property lookup;
  \<^item> \<open>newDate\<close>: \<open>new Date(s)\<close>, \<open>None\<close> for an Invalid Date;
  \<^item> \<open>nowISO i\<close>: \<open>new Date().toISOString()\<close> while item \<open>i\<close> is processed;
  \<^item> \<open>shouldStop i\<close>: the value of \<open>shouldStopProcessing\<close> when the loop checks it
    before item \<open>i\<close> (counted from 0).
\<close>

record env =
  callAI :: "nat \<Rightarrow> prompt \<Rightarrow> jstring + jstring"
  JSON_parse :: "jstring \<Rightarrow> (jstring \<Rightarrow> jsval) option"
  newDate :: "jstring \<Rightarrow> jsDate option"
  nowISO :: "nat \<Rightarrow> jstring"
  shouldStop :: "nat \<Rightarrow> bool"

section \<open>AIProvider\<close>

definition buildCategorizationPrompt :: "email \<Rightarrow> prompt" where
  "buildCategorizationPrompt e = CategorizationPrompt e"

definition buildExtractionPrompt :: "email \<Rightarrow> prompt" where
  "buildExtractionPrompt e = ExtractionPrompt e"

text \<open>\<open>AIProvider.categorizeEmail\<close>, as the \<open>n\<close>-th backend call: the verdict, or the
  rethrown error.\<close>

definition AIProvider_categorizeEmail :: "env \<Rightarrow> nat \<Rightarrow> email \<Rightarrow> jstring + bool" where
  "AIProvider_categorizeEmail E n e =
     (case callAI E n (buildCategorizationPrompt e) of
        Inr response \<Rightarrow>
          (let answer = trim (toLowerCase response)
           in Inr (includesStr answer (js ''yes'') \<or> answer = js ''true'' \<or> answer = js ''1''))
      | Inl msg \<Rightarrow> Inl (js ''Failed to categorize email: '' @ msg))"

text \<open>The regular expression \<open>/\{[\s\S]*\}/\<close>: from the first \<open>{\<close> (123) to the last
  \<open>}\<close> (125) behind it.\<close>

definition jsonMatch :: "jstring \<Rightarrow> jstring option" where
  "jsonMatch response =
     (let s = dropWhile (\<lambda>c. c \<noteq> 123) response
      in if s = [] then None
         else (let t = rev (dropWhile (\<lambda>c. c \<noteq> 125) (rev (tl s)))
               in if t = [] then None else Some (123 # t)))"

definition falsy :: "jsval \<Rightarrow> bool" where
  "falsy v = (v = JUndefined \<or> v = JNull \<or> v = JBool False \<or> v = JNum 0 \<or> v = JStr [])"

text \<open>\<open>cleanValue\<close>: \<open>Inl\<close> is the TypeError of \<open>val.trim()\<close> on a value that is no
  string.\<close>

definition cleanValue :: "jsval \<Rightarrow> jstring + jstring option" where
  "cleanValue val =
     (if falsy val \<or> val = JStr (js ''null'') \<or> val = JStr (js ''NULL'') \<or> val = JStr (js ''None'')
      then Inr None
      else (case val of
              JStr s \<Rightarrow> Inr (Some (trim s))
            | _ \<Rightarrow> Inl (js ''val.trim is not a function'')))"

record extraction =
  ex_company :: "jstring option"
  ex_position :: "jstring option"
  application_date :: "jstring option"

definition parseExtractionResponse :: "env \<Rightarrow> jstring \<Rightarrow> jstring + extraction" where
  "parseExtractionResponse E response =
     (case jsonMatch response of
        None \<Rightarrow> Inl (js ''Failed to parse AI response'')
      | Some m \<Rightarrow>
          (case JSON_parse E m of
             None \<Rightarrow> Inl (js ''Failed to parse AI response'')
           | Some data \<Rightarrow>
               (case cleanValue (data (js ''company'')) of
                  Inl _ \<Rightarrow> Inl (js ''Failed to parse AI response'')
                | Inr c \<Rightarrow>
                    (case cleanValue (data (js ''position'')) of
                       Inl _ \<Rightarrow> Inl (js ''Failed to parse AI response'')
                     | Inr p \<Rightarrow>
                         Inr \<lparr>ex_company = c, ex_position = p, application_date = None\<rparr>))))"

text \<open>\<open>validateDate\<close>: \<open>YYYY-MM-DD\<close> in local time, \<open>null\<close> for an empty or invalid
  date string.\<close>

definition validateDate :: "env \<Rightarrow> jstring \<Rightarrow> jstring option" where
  "validateDate E dateString =
     (if dateString = [] then None
      else (case newDate E dateString of
              None \<Rightarrow> None
            | Some d \<Rightarrow>
                Some (showInt (getFullYear d) @ 45 # padStart2 (digits (getMonth d + 1))
                      @ 45 # padStart2 (digits (getDate d)))))"

text \<open>\<open>AIProvider.extractInformation\<close>, as the \<open>n\<close>-th backend call.\<close>

definition AIProvider_extractInformation :: "env \<Rightarrow> nat \<Rightarrow> email \<Rightarrow> jstring + extraction" where
  "AIProvider_extractInformation E n e =
     (case callAI E n (buildExtractionPrompt e) of
        Inl msg \<Rightarrow> Inl msg
      | Inr response \<Rightarrow>
          (case parseExtractionResponse E response of
             Inl msg \<Rightarrow> Inl msg
           | Inr parsed \<Rightarrow>
               (let data = parsed\<lparr>application_date := validateDate E (date e)\<rparr>
                in if falsyStr (ex_company data) \<and> falsyStr (ex_position data)
                   then Inl (js ''Could not extract company or position from email'')
                   else Inr data)))"

section \<open>EmailProcessor\<close>

record stats =
  emailsScanned :: nat
  confirmationsFound :: nat
  successfulExtractions :: nat
  errors :: nat

text \<open>One entry of the per-item outcome log (\<open>emailInfo\<close>); \<open>status\<close> is undefined
  (\<open>None\<close>) until the item's outcome is known.\<close>

record emailInfo =
  index :: nat
  i_subject :: jstring
  i_from :: jstring
  i_date :: jstring
  isConfirmation :: bool
  extracted :: "extraction option"
  error :: "jstring option"
  status :: "jstring option"

text \<open>The record candidate; \<open>company\<close> and \<open>position\<close> may be \<open>null\<close>.\<close>

record app_record =
  message_id :: jstring
  company :: "jstring option"
  position :: "jstring option"
  email_title :: jstring
  email_date :: jstring
  processed_timestamp :: jstring

text \<open>The processor during a run: the local \<open>records\<close>, \<open>this.stats\<close>,
  \<open>this.emailDetails\<close>, and two logs of what it did to the outside: \<open>calls\<close>, the number
  of backend calls made so far, and \<open>delays\<close>, the milliseconds of each \<open>this.delay\<close> in
  order.\<close>

record processor =
  records :: "app_record list"
  stats :: stats
  emailDetails :: "emailInfo list"
  calls :: nat
  delays :: "nat list"

definition isRateLimit :: "jstring \<Rightarrow> bool" where
  "isRateLimit message = (includesStr message (js ''rate limit'') \<or> includesStr message (js ''429''))"

text \<open>\<open>EmailProcessor.categorizeEmail\<close>: the provider's call, once more after 2000 ms when
  the first one threw a rate-limit error; whatever the second call does is the result.\<close>

definition EmailProcessor_categorizeEmail ::
  "env \<Rightarrow> email \<Rightarrow> processor \<Rightarrow> (jstring + bool) \<times> processor" where
  "EmailProcessor_categorizeEmail E e s =
     (case AIProvider_categorizeEmail E (calls s) e of
        Inr b \<Rightarrow> (Inr b, s\<lparr>calls := calls s + 1\<rparr>)
      | Inl message \<Rightarrow>
          (if isRateLimit message
           then (AIProvider_categorizeEmail E (calls s + 1) e,
                 s\<lparr>calls := calls s + 2, delays := delays s @ [2000]\<rparr>)
           else (Inl message, s\<lparr>calls := calls s + 1\<rparr>)))"

text \<open>\<open>EmailProcessor.extractInformation\<close>: the same retry; any other error is logged and
  becomes \<open>null\<close> (\<open>Inr None\<close>).\<close>

definition EmailProcessor_extractInformation ::
  "env \<Rightarrow> email \<Rightarrow> processor \<Rightarrow> (jstring + extraction option) \<times> processor" where
  "EmailProcessor_extractInformation E e s =
     (case AIProvider_extractInformation E (calls s) e of
        Inr d \<Rightarrow> (Inr (Some d), s\<lparr>calls := calls s + 1\<rparr>)
      | Inl message \<Rightarrow>
          (if isRateLimit message
           then ((case AIProvider_extractInformation E (calls s + 1) e of
                    Inr d \<Rightarrow> Inr (Some d)
                  | Inl message' \<Rightarrow> Inl message'),
                 s\<lparr>calls := calls s + 2, delays := delays s @ [2000]\<rparr>)
           else (Inr None, s\<lparr>calls := calls s + 1\<rparr>)))"

text \<open>The \<open>catch\<close> block of the loop body.\<close>

definition catchError :: "jstring \<Rightarrow> emailInfo \<Rightarrow> processor \<Rightarrow> processor" where
  "catchError message info s =
     s\<lparr>emailDetails := emailDetails s @
          [info\<lparr>error := Some message, status := Some (js ''Error: '' @ message)\<rparr>],
       stats := (stats s)\<lparr>errors := errors (stats s) + 1\<rparr>\<rparr>"

text \<open>The body of the loop for \<open>emails[i]\<close>, past the stop check. Progress messages and
  console output are not part of the state.\<close>

definition processItem :: "env \<Rightarrow> nat \<Rightarrow> email \<Rightarrow> processor \<Rightarrow> processor" where
  "processItem E i e s =
     (let emailInfo = \<lparr>index = i + 1, i_subject = subject e, i_from = sender e, i_date = date e,
                        isConfirmation = False, extracted = None, error = None, status = None\<rparr>;
          s1 = s\<lparr>stats := (stats s)\<lparr>emailsScanned := emailsScanned (stats s) + 1\<rparr>\<rparr>
      in case EmailProcessor_categorizeEmail E e s1 of
           (Inl message, s2) \<Rightarrow> catchError message emailInfo s2
         | (Inr isJobConfirmation, s2) \<Rightarrow>
             (let info1 = emailInfo\<lparr>isConfirmation := isJobConfirmation\<rparr>
              in if \<not> isJobConfirmation
                 then s2\<lparr>emailDetails := emailDetails s2 @
                        [info1\<lparr>status := Some (js ''Skipped - Not a job confirmation'')\<rparr>]\<rparr>
                 else (let s3 = s2\<lparr>stats := (stats s2)
                                   \<lparr>confirmationsFound := confirmationsFound (stats s2) + 1\<rparr>\<rparr>
                       in case EmailProcessor_extractInformation E e s3 of
                            (Inl message, s4) \<Rightarrow> catchError message info1 s4
                          | (Inr extractedData, s4) \<Rightarrow>
                              (let info2 = info1\<lparr>extracted := extractedData\<rparr>
                               in case extractedData of
                                    Some d \<Rightarrow>
                                      s4\<lparr>records := records s4 @
                                           [\<lparr>message_id = messageId e,
                                             company = ex_company d,
                                             position = ex_position d,
                                             email_title = subject e,
                                             email_date = date e,
                                             processed_timestamp = nowISO E i\<rparr>],
                                         stats := (stats s4)\<lparr>successfulExtractions :=
                                                    successfulExtractions (stats s4) + 1\<rparr>,
                                         emailDetails := emailDetails s4 @
                                           [info2\<lparr>status := Some (js ''Successfully extracted'')\<rparr>],
                                         delays := delays s4 @ [500]\<rparr>
                                  | None \<Rightarrow>
                                      s4\<lparr>emailDetails := emailDetails s4 @
                                           [info2\<lparr>status := Some (js ''Extraction failed'')\<rparr>],
                                         delays := delays s4 @ [500]\<rparr>))))"

text \<open>The \<open>for\<close> loop from index \<open>i\<close> over the items still to come: the stop check
  first, \<open>break\<close> when it holds.\<close>

fun processLoop :: "env \<Rightarrow> email list \<Rightarrow> nat \<Rightarrow> processor \<Rightarrow> processor" where
  "processLoop E [] i s = s"
| "processLoop E (e # rest) i s =
     (if shouldStop E i then s else processLoop E rest (i + 1) (processItem E i e s))"

text \<open>The stop check of a run that is never asked to stop (or has no callback).\<close>

definition neverStop :: "nat \<Rightarrow> bool" where
  "neverStop j = False"

definition resetStats :: stats where
  "resetStats = \<lparr>emailsScanned = 0, confirmationsFound = 0, successfulExtractions = 0, errors = 0\<rparr>"

text \<open>\<open>processEmails\<close> on a processor that has made no call yet; the source returns
  \<open>records\<close> and keeps the rest in \<open>this\<close>.\<close>

definition processEmails :: "env \<Rightarrow> email list \<Rightarrow> processor" where
  "processEmails E emails =
     processLoop E emails 0
       \<lparr>records = [], stats = resetStats, emailDetails = [], calls = 0, delays = []\<rparr>"

section \<open>CSVManager\<close>

definition headers :: "jstring list" where
  "headers = [js ''email_date'', js ''company'', js ''position'', js ''email_title'',
              js ''processed_timestamp'', js ''message_id'']"

text \<open>\<open>formatTimestamp\<close>: \<open>MM-DD-YYYY HH:MM:SS\<close> in local time. The getters of an
  Invalid Date return \<open>NaN\<close>, which prints as \<open>NaN\<close>; nothing in the \<open>try\<close> block
  throws.\<close>

definition formatTimestamp :: "env \<Rightarrow> jstring \<Rightarrow> jstring" where
  "formatTimestamp E isoTimestamp =
     (if isoTimestamp = [] then []
      else (case newDate E isoTimestamp of
              None \<Rightarrow> js ''NaN-NaN-NaN NaN:NaN:NaN''
            | Some d \<Rightarrow>
                padStart2 (digits (getMonth d + 1)) @ 45 # padStart2 (digits (getDate d))
                @ 45 # showInt (getFullYear d) @ 32 # padStart2 (digits (getHours d))
                @ 58 # padStart2 (digits (getMinutes d)) @ 58 # padStart2 (digits (getSeconds d))))"

text \<open>The loop of \<open>parseCSVLine\<close> over the code units still to read, with the values
  pushed so far, the current value and \<open>inQuotes\<close>; 34 is the double quote, 44 the
  comma.\<close>

fun parseLoop :: "jstring \<Rightarrow> jstring list \<Rightarrow> jstring \<Rightarrow> bool \<Rightarrow> jstring list" where
  "parseLoop [] values current inQuotes = values @ [current]"
| "parseLoop [c] values current inQuotes =
     (if c = 34 then parseLoop [] values current (\<not> inQuotes)
      else if c = 44 \<and> \<not> inQuotes then parseLoop [] (values @ [current]) [] inQuotes
      else parseLoop [] values (current @ [c]) inQuotes)"
| "parseLoop (c # nextChar # rest) values current inQuotes =
     (if c = 34 \<and> inQuotes \<and> nextChar = 34 then parseLoop rest values (current @ [34]) inQuotes
      else if c = 34 then parseLoop (nextChar # rest) values current (\<not> inQuotes)
      else if c = 44 \<and> \<not> inQuotes then parseLoop (nextChar # rest) (values @ [current]) [] inQuotes
      else parseLoop (nextChar # rest) values (current @ [c]) inQuotes)"

definition parseCSVLine :: "jstring \<Rightarrow> jstring list" where
  "parseCSVLine line = parseLoop line [] [] False"

text \<open>The record \<open>parseCSV\<close> builds from six values, in the order of \<open>headers\<close>.\<close>

definition recordOfValues :: "jstring list \<Rightarrow> app_record" where
  "recordOfValues values =
     \<lparr>message_id = values ! 5, company = Some (values ! 1), position = Some (values ! 2),
      email_title = values ! 3, email_date = values ! 0, processed_timestamp = values ! 4\<rparr>"

definition parseCSV :: "jstring \<Rightarrow> app_record list" where
  "parseCSV content =
     (if content = [] \<or> trim content = [] then []
      else (let lines = splitLines (trim content)
            in if length lines \<le> 1 then []
               else concat (map (\<lambda>line.
                      if trim line = [] then []
                      else (let values = parseCSVLine line
                            in if length values = length headers then [recordOfValues values]
                               else []))
                    (drop 1 lines))))"

text \<open>\<open>record[header]\<close>.\<close>

definition getField :: "app_record \<Rightarrow> jstring \<Rightarrow> jstring option" where
  "getField r header =
     (if header = js ''email_date'' then Some (email_date r)
      else if header = js ''company'' then company r
      else if header = js ''position'' then position r
      else if header = js ''email_title'' then Some (email_title r)
      else if header = js ''processed_timestamp'' then Some (processed_timestamp r)
      else if header = js ''message_id'' then Some (message_id r)
      else None)"

text \<open>\<open>value.replace(/"/g, '""')\<close>.\<close>

definition doubleQuotes :: "jstring \<Rightarrow> jstring" where
  "doubleQuotes v = concat (map (\<lambda>c. if c = 34 then [34, 34] else [c]) v)"

text \<open>\<open>v || ''\<close> on a string or \<open>null\<close>.\<close>

definition orEmpty :: "jstring option \<Rightarrow> jstring" where
  "orEmpty v = (case v of None \<Rightarrow> [] | Some s \<Rightarrow> s)"

text \<open>One value of \<open>recordToCSVLine\<close>: the field or the empty string, the two timestamp
  columns reformatted, quoted when it holds a comma, a quote or a newline.\<close>

definition csvValue :: "env \<Rightarrow> app_record \<Rightarrow> jstring \<Rightarrow> jstring" where
  "csvValue E r header =
     (let value0 = orEmpty (getField r header);
          value = (if (header = js ''email_date'' \<or> header = js ''processed_timestamp'') \<and> value0 \<noteq> []
                   then formatTimestamp E value0 else value0)
      in if 44 \<in> set value \<or> 34 \<in> set value \<or> 10 \<in> set value
         then 34 # doubleQuotes value @ [34]
         else value)"

text \<open>The quoting step of \<open>csvValue\<close> on its own.\<close>

definition csvQuote :: "jstring \<Rightarrow> jstring" where
  "csvQuote v = (if 44 \<in> set v \<or> 34 \<in> set v \<or> 10 \<in> set v then 34 # doubleQuotes v @ [34] else v)"

definition recordToCSVLine :: "env \<Rightarrow> app_record \<Rightarrow> jstring" where
  "recordToCSVLine E r = joinComma (map (csvValue E r) headers)"

text \<open>The text \<open>exportAsDownload\<close> encodes and hands to the download: the byte-order
  mark, the header row and one line per record.\<close>

definition BOM :: jstring where
  "BOM = [65279]"

definition exportContent :: "env \<Rightarrow> app_record list \<Rightarrow> jstring" where
  "exportContent E rs =
     foldl (\<lambda>content r. content @ recordToCSVLine E r @ [10]) (BOM @ joinComma headers @ [10]) rs"

text \<open>Lines joined by newlines, and what a stored record reads as once exported and parsed
  again: every field a string, an absent one the empty string, the two timestamps in their
  display form.\<close>

fun joinLines :: "jstring list \<Rightarrow> jstring" where
  "joinLines [] = []"
| "joinLines [l] = l"
| "joinLines (l # m # ls) = l @ 10 # joinLines (m # ls)"

definition displayed :: "env \<Rightarrow> app_record \<Rightarrow> app_record" where
  "displayed E r =
     \<lparr>message_id = message_id r, company = Some (orEmpty (company r)),
      position = Some (orEmpty (position r)), email_title = email_title r,
      email_date = formatTimestamp E (email_date r),
      processed_timestamp = formatTimestamp E (processed_timestamp r)\<rparr>"

text \<open>\<open>addRecords\<close> on the stored table: the new table and the counts returned. Storage
  reads and writes are taken to succeed.\<close>

record addResult =
  total :: nat
  added :: nat
  duplicatesSkipped :: nat

definition addRecords :: "app_record list \<Rightarrow> app_record list \<Rightarrow> app_record list \<times> addResult" where
  "addRecords newRecords existingRecords =
     (let existingIds = set (map message_id existingRecords);
          uniqueNewRecords = filter (\<lambda>r. message_id r \<notin> existingIds) newRecords;
          allRecords = existingRecords @ uniqueNewRecords
      in (allRecords,
          \<lparr>total = length allRecords, added = length uniqueNewRecords,
           duplicatesSkipped = length newRecords - length uniqueNewRecords\<rparr>))"

text \<open>A sequence of \<open>addRecords\<close> calls, one per batch, on the table each call leaves: the
  final table and the \<open>added\<close> count of each call.\<close>

fun appendAll :: "app_record list list \<Rightarrow> app_record list \<Rightarrow> app_record list \<times> nat list" where
  "appendAll [] table = (table, [])"
| "appendAll (batch # batches) table =
     (let (table', result) = addRecords batch table;
          (final, counts) = appendAll batches table'
      in (final, added result # counts))"

section \<open>The service worker\<close>

text \<open>
  The globals of \<open>background.js\<close> and what the managers keep in \<open>chrome.storage.local\<close>:
  \<open>scannedEmailIds\<close> (ScannedTracker), \<open>csvRecords\<close> (CSVManager), \<open>lastCheckpoint\<close>,
  \<open>emailLimit\<close> and \<open>timePeriod\<close> (ConfigManager). \<open>activeRuns\<close> is not a variable of
  the source: it counts the activations of \<open>handleProcessEmails\<close> that have begun and have
  not reached their \<open>finally\<close> block.
\<close>

record worker =
  shouldStopProcessing :: bool
  isProcessing :: bool
  activeRuns :: nat
  scannedEmailIds :: "jstring list"
  csvRecords :: "app_record list"
  lastCheckpoint :: "jstring option"
  cfg_emailLimit :: nat
  cfg_timePeriod :: nat

text \<open>A JavaScript \<open>Set\<close> as the list of its elements in insertion order.\<close>

definition setAdd :: "'a list \<Rightarrow> 'a \<Rightarrow> 'a list" where
  "setAdd s x = (if x \<in> set s then s else s @ [x])"

definition newSet :: "'a list \<Rightarrow> 'a list" where
  "newSet xs = foldl setAdd [] xs"

definition getScannedIds :: "worker \<Rightarrow> jstring list" where
  "getScannedIds w = newSet (scannedEmailIds w)"

definition markAsScanned :: "jstring list \<Rightarrow> worker \<Rightarrow> worker" where
  "markAsScanned messageIds w = w\<lparr>scannedEmailIds := foldl setAdd (getScannedIds w) messageIds\<rparr>"

definition updateCheckpoint :: "jstring \<Rightarrow> worker \<Rightarrow> worker" where
  "updateCheckpoint timestamp w = w\<lparr>lastCheckpoint := Some timestamp\<rparr>"

text \<open>The request's settings; \<open>None\<close> is a missing or \<open>NaN\<close> number.\<close>

record settings =
  provider :: jstring
  apiKey :: jstring
  timePeriod :: "nat option"
  emailLimit :: "nat option"

text \<open>The Gmail client as the run meets it: \<open>getAccessToken\<close> and
  \<open>fetchEmails timePeriod maxResults\<close>, each a value or a thrown error's message.\<close>

record gmail =
  getAccessToken :: "jstring + jstring option"
  fetchEmails :: "nat \<Rightarrow> nat \<Rightarrow> jstring + email list"

record results =
  r_emailsScanned :: nat
  r_confirmationsFound :: nat
  r_newRecords :: nat
  r_duplicatesSkipped :: nat
  r_errors :: nat
  r_emailDetails :: "emailInfo list option"

datatype response = Succeeded "bool option" results | Failed jstring

text \<open>\<open>a || b\<close> on numbers: \<open>NaN\<close>, a missing value and 0 give way to \<open>b\<close>.\<close>

definition orElse :: "nat option \<Rightarrow> nat \<Rightarrow> nat" where
  "orElse a b = (case a of None \<Rightarrow> b | Some n \<Rightarrow> if n = 0 then b else n)"

text \<open>\<open>new Date(a) > new Date(b)\<close>: the time values compared, false when either is
  \<open>NaN\<close>.\<close>

definition laterThan :: "env \<Rightarrow> jstring \<Rightarrow> jstring \<Rightarrow> bool" where
  "laterThan E a b =
     (case (newDate E a, newDate E b) of
        (Some x, Some y) \<Rightarrow> getTime x > getTime y
      | _ \<Rightarrow> False)"

text \<open>\<open>emails.reduce((latest, email) => ... ? email : latest)\<close> from the first item.\<close>

definition latestEmail :: "env \<Rightarrow> email \<Rightarrow> email list \<Rightarrow> email" where
  "latestEmail E first rest =
     foldl (\<lambda>latest email. if laterThan E (date email) (date latest) then email else latest) first rest"

text \<open>The first statements of \<open>handleProcessEmails\<close>, which run before its first
  \<open>await\<close>, and its \<open>finally\<close> block.\<close>

definition startRun :: "worker \<Rightarrow> worker" where
  "startRun w = w\<lparr>isProcessing := True, shouldStopProcessing := False, activeRuns := activeRuns w + 1\<rparr>"

definition finishRun :: "worker \<Rightarrow> worker" where
  "finishRun w = w\<lparr>isProcessing := False, activeRuns := activeRuns w - 1\<rparr>"

text \<open>Steps 5 to 8 of \<open>handleProcessEmails\<close>, on the fetched \<open>emails\<close>, the items left
  to process and the count already scanned. The flag \<open>shouldStopProcessing\<close> read behind
  the loop is the environment's \<open>shouldStop\<close> at the number of items done.\<close>

definition processAndSave ::
  "env \<Rightarrow> email list \<Rightarrow> email list \<Rightarrow> nat \<Rightarrow> worker \<Rightarrow> response \<times> worker" where
  "processAndSave E emails unscannedEmails alreadyScanned w =
     (let p = processEmails E unscannedEmails;
          emailDetails = emailDetails p;
          stopped = shouldStop E (length emailDetails);
          w0 = w\<lparr>shouldStopProcessing := stopped\<rparr>;
          processedIds = filter (\<lambda>id. id \<noteq> [])
                           (map (\<lambda>idx. messageId (unscannedEmails ! idx)) [0..<length emailDetails]);
          w1 = (if length processedIds > 0 then markAsScanned processedIds w0 else w0);
          existingIds = set (map message_id (csvRecords w1));
          newRecords = filter (\<lambda>r. message_id r \<notin> existingIds) (records p);
          csvDuplicates = length (records p) - length newRecords;
          res = \<lparr>r_emailsScanned = emailsScanned (stats p),
                 r_confirmationsFound = confirmationsFound (stats p),
                 r_newRecords = length newRecords,
                 r_duplicatesSkipped = alreadyScanned + csvDuplicates,
                 r_errors = errors (stats p),
                 r_emailDetails = Some emailDetails\<rparr>
      in if length newRecords > 0
         then (let w2 = w1\<lparr>csvRecords := fst (addRecords newRecords (csvRecords w1))\<rparr>;
                   w3 = (case emails of
                           [] \<Rightarrow> w2
                         | first # rest \<Rightarrow> updateCheckpoint (date (latestEmail E first rest)) w2)
               in (Succeeded (Some stopped) res, w3))
         else (Succeeded (Some stopped) res, w1))"

definition emptyResults :: "nat \<Rightarrow> emailInfo list option \<Rightarrow> results" where
  "emptyResults dup details =
     \<lparr>r_emailsScanned = 0, r_confirmationsFound = 0, r_newRecords = 0,
      r_duplicatesSkipped = dup, r_errors = 0, r_emailDetails = details\<rparr>"

text \<open>\<open>handleProcessEmails\<close> as one uninterrupted activation: the response sent and the
  worker left behind.\<close>

definition handleProcessEmails ::
  "env \<Rightarrow> gmail \<Rightarrow> settings \<Rightarrow> worker \<Rightarrow> response \<times> worker" where
  "handleProcessEmails E G settings w0 =
     (let w = startRun w0;
          (resp, w') =
            (case getAccessToken G of
               Inl message \<Rightarrow> (Failed message, w)
             | Inr token \<Rightarrow>
                 if falsyStr token then (Failed (js ''Gmail authentication required''), w)
                 else (let scannedIds = getScannedIds w;
                           requestedLimit = orElse (emailLimit settings) (cfg_emailLimit w);
                           fetchLimit = min (requestedLimit + length scannedIds) 500
                       in case fetchEmails G (orElse (timePeriod settings) (cfg_timePeriod w)) fetchLimit of
                            Inl message \<Rightarrow> (Failed message, w)
                          | Inr emails \<Rightarrow>
                              if length emails = 0 then (Succeeded None (emptyResults 0 None), w)
                              else (let unscannedEmails =
                                          take requestedLimit
                                            (filter (\<lambda>e. messageId e \<notin> set scannedIds) emails);
                                        alreadyScanned = length emails -
                                          length (filter (\<lambda>e. messageId e \<notin> set scannedIds) emails)
                                    in if length unscannedEmails = 0
                                       then (Succeeded None (emptyResults alreadyScanned (Some [])), w)
                                       else processAndSave E emails unscannedEmails alreadyScanned w)))
      in (resp, finishRun w'))"

text \<open>The messages of the popup and what the listener does with each before it returns:
  it answers at once, or it calls a handler that answers later. For \<open>processEmails\<close> the
  handler has then run up to its first \<open>await\<close>.\<close>

datatype message =
  Authenticate | RevokeToken | ProcessEmails settings | StopProcessing
  | CheckProcessingState | OpenCSV

datatype reaction =
  RespondSuccess | RespondIsProcessing bool | HandlerStarted

definition onMessage :: "message \<Rightarrow> worker \<Rightarrow> reaction \<times> worker" where
  "onMessage m w =
     (case m of
        Authenticate \<Rightarrow> (HandlerStarted, w)
      | RevokeToken \<Rightarrow> (HandlerStarted, w)
      | ProcessEmails settings \<Rightarrow> (HandlerStarted, startRun w)
      | StopProcessing \<Rightarrow> (RespondSuccess, w\<lparr>shouldStopProcessing := True\<rparr>)
      | CheckProcessingState \<Rightarrow> (RespondIsProcessing (isProcessing w), w)
      | OpenCSV \<Rightarrow> (HandlerStarted, w))"

section \<open>Example inputs\<close>

text \<open>A concrete item, responses and platform for the closed theorems below. \<open>demoJSON\<close>
  and \<open>demoDate\<close> are \<open>JSON.parse\<close> and \<open>new Date\<close> on the texts the examples use,
  the dates read in UTC.\<close>

definition demoEmail :: email where
  "demoEmail = \<lparr>messageId = js ''18d0a1'', subject = js ''Thank you for applying to Acme'',
     sender = js ''jobs@acme.example'', date = js ''2024-01-15T10:30:00.000Z'',
     body = js ''We received your application.''\<rparr>"

definition noneText :: jstring where
  \<open>noneText = js ''{"company": "none", "position": "Engineer"}''\<close>

definition nullText :: jstring where
  \<open>nullText = js ''{"company": "null", "position": "Engineer"}''\<close>

definition emptyText :: jstring where
  \<open>emptyText = js ''{"company": null, "position": null}''\<close>

definition acmeText :: jstring where
  \<open>acmeText = js ''{"company": "Acme", "position": "Engineer", "application_date": "1999-12-31"}''\<close>

definition demoJSON :: "jstring \<Rightarrow> (jstring \<Rightarrow> jsval) option" where
  "demoJSON text =
     (if text = noneText
      then Some (\<lambda>k. if k = js ''company'' then JStr (js ''none'')
                      else if k = js ''position'' then JStr (js ''Engineer'') else JUndefined)
      else if text = nullText
      then Some (\<lambda>k. if k = js ''company'' then JStr (js ''null'')
                      else if k = js ''position'' then JStr (js ''Engineer'') else JUndefined)
      else if text = emptyText
      then Some (\<lambda>k. if k = js ''company'' \<or> k = js ''position'' then JNull else JUndefined)
      else if text = acmeText
      then Some (\<lambda>k. if k = js ''company'' then JStr (js ''Acme'')
                      else if k = js ''position'' then JStr (js ''Engineer'')
                      else if k = js ''application_date'' then JStr (js ''1999-12-31'')
                      else JUndefined)
      else None)"

definition demoDate :: "jstring \<Rightarrow> jsDate option" where
  "demoDate s =
     (if s = js ''2024-01-15T10:30:00.000Z''
      then Some \<lparr>getTime = 1705314600000, getFullYear = 2024, getMonth = 0, getDate = 15,
                  getHours = 10, getMinutes = 30, getSeconds = 0\<rparr>
      else if s = js ''2024-01-16T08:00:00.000Z''
      then Some \<lparr>getTime = 1705392000000, getFullYear = 2024, getMonth = 0, getDate = 16,
                  getHours = 8, getMinutes = 0, getSeconds = 0\<rparr>
      else None)"

definition demoEnv :: "(nat \<Rightarrow> jstring + jstring) \<Rightarrow> env" where
  "demoEnv answers =
     \<lparr>callAI = (\<lambda>n p. answers n), JSON_parse = demoJSON, newDate = demoDate,
      nowISO = (\<lambda>i. js ''2024-01-16T08:00:00.000Z''), shouldStop = (\<lambda>i. False)\<rparr>"

definition noAnswers :: "nat \<Rightarrow> jstring + jstring" where
  "noAnswers n = Inl (js ''network error'')"

definition answersYesterday :: "nat \<Rightarrow> jstring + jstring" where
  "answersYesterday n = Inr (js ''NO - see YESterday'')"

definition answersRetryYes :: "nat \<Rightarrow> jstring + jstring" where
  "answersRetryYes n = (if n = 0 then Inl (js ''429 Too Many Requests'') else Inr (js ''YES''))"

definition answersRateLimited :: "nat \<Rightarrow> jstring + jstring" where
  "answersRateLimited n = (if n = 0 then Inr (js ''YES'') else Inl (js ''rate limit exceeded''))"

definition answersEmpty :: "nat \<Rightarrow> jstring + jstring" where
  "answersEmpty n = (if n = 0 then Inr (js ''YES'') else Inr emptyText)"

definition answersAcme :: "nat \<Rightarrow> jstring + jstring" where
  "answersAcme n = (if n = 0 then Inr (js ''YES'') else Inr (js ''Here it is: '' @ acmeText))"

definition demoWorker :: worker where
  "demoWorker = \<lparr>shouldStopProcessing = False, isProcessing = False, activeRuns = 0,
     scannedEmailIds = [], csvRecords = [], lastCheckpoint = None,
     cfg_emailLimit = 50, cfg_timePeriod = 14\<rparr>"

definition demoSettings :: settings where
  "demoSettings = \<lparr>provider = js ''openai'', apiKey = js ''sk-test'', timePeriod = Some 14,
     emailLimit = Some 50\<rparr>"

definition demoGmail :: "email list \<Rightarrow> gmail" where
  "demoGmail emails = \<lparr>getAccessToken = Inr (Some (js ''token'')),
     fetchEmails = (\<lambda>days maxResults. Inr (take maxResults emails))\<rparr>"

definition acmeRecord :: app_record where
  "acmeRecord = \<lparr>message_id = js ''18d0a1'', company = Some (js ''Acme''),
     position = Some (js ''Engineer''), email_title = js ''Thank you for applying to Acme'',
     email_date = js ''2024-01-15T10:30:00.000Z'',
     processed_timestamp = js ''2024-01-16T08:00:00.000Z''\<rparr>"

definition otherRecord :: app_record where
  "otherRecord = \<lparr>message_id = js ''18d0b2'', company = Some (js ''Globex''),
     position = None, email_title = js ''Application received'',
     email_date = js ''2024-01-16T08:00:00.000Z'',
     processed_timestamp = js ''2024-01-16T08:00:00.000Z''\<rparr>"

definition answersNo :: "nat \<Rightarrow> jstring + jstring" where
  "answersNo n = Inr (js ''NO'')"

definition laterEmail :: email where
  "laterEmail = \<lparr>messageId = js ''18d0b2'', subject = js ''Weekly newsletter'',
     sender = js ''news@globex.example'', date = js ''2024-01-16T08:00:00.000Z'',
     body = js ''This week at Globex.''\<rparr>"

definition stopAfter :: "nat \<Rightarrow> nat \<Rightarrow> bool" where
  "stopAfter k j = (k \<le> j)"

definition cancelEnv :: env where
  "cancelEnv = (demoEnv answersAcme)\<lparr>shouldStop := stopAfter 1\<rparr>"

definition commaRecord :: app_record where
  "commaRecord = \<lparr>message_id = js ''18d0c3'', company = None,
     position = Some (js ''Engineer, Senior''), email_title = js ''Your application to Initech'',
     email_date = js ''2024-01-16T08:00:00.000Z'',
     processed_timestamp = js ''2024-01-16T08:00:00.000Z''\<rparr>"

section \<open>Substrings and trimming\<close>

lemma startsWith_iff: "startsWith s p \<longleftrightarrow> (\<exists>v. s = p @ v)"
  by (induction s p rule: startsWith.induct) auto

lemma includesStr_iff: "includesStr s p \<longleftrightarrow> (\<exists>u v. s = u @ p @ v)"
proof (induction s)
  case Nil
  show ?case by auto
next
  case (Cons c s)
  show ?case
  proof
    assume "includesStr (c # s) p"
    then consider "startsWith (c # s) p" | "includesStr s p" by auto
    then show "\<exists>u v. c # s = u @ p @ v"
    proof cases
      case 1
      then obtain v where "c # s = p @ v" by (auto simp: startsWith_iff)
      then have "c # s = [] @ p @ v" by simp
      then show ?thesis by blast
    next
      case 2
      then obtain u v where "s = u @ p @ v" using Cons.IH by blast
      then have "c # s = (c # u) @ p @ v" by simp
      then show ?thesis by blast
    qed
  next
    assume "\<exists>u v. c # s = u @ p @ v"
    then obtain u v where uv: "c # s = u @ p @ v" by blast
    show "includesStr (c # s) p"
    proof (cases u)
      case Nil
      with uv have "startsWith (c # s) p" by (auto simp: startsWith_iff)
      then show ?thesis by simp
    next
      case (Cons d u')
      with uv have "s = u' @ p @ v" by simp
      then have "includesStr s p" using Cons.IH by blast
      then show ?thesis by simp
    qed
  qed
qed

lemma trimStart_keeps:
  assumes "w \<noteq> []" "\<not> isWhiteSpace (hd w)"
  shows "\<exists>u'. trimStart (u @ w @ v) = u' @ w @ v"
proof (cases "\<forall>x\<in>set u. isWhiteSpace x")
  case True
  then have "dropWhile isWhiteSpace (u @ w @ v) = dropWhile isWhiteSpace (w @ v)"
    by (simp add: dropWhile_append)
  also have "\<dots> = w @ v" using assms by (cases w) auto
  finally have "trimStart (u @ w @ v) = [] @ w @ v" by (simp add: trimStart_def)
  then show ?thesis by blast
next
  case False
  then have "dropWhile isWhiteSpace (u @ w @ v) = dropWhile isWhiteSpace u @ w @ v"
    by (auto simp add: dropWhile_append)
  then show ?thesis by (auto simp: trimStart_def)
qed

lemma trimEnd_keeps:
  assumes "w \<noteq> []" "\<not> isWhiteSpace (last w)"
  shows "\<exists>v'. trimEnd (u @ w @ v) = u @ w @ v'"
proof (cases "\<forall>x\<in>set v. isWhiteSpace x")
  case True
  then have "dropWhile isWhiteSpace (rev v @ rev w @ rev u) = dropWhile isWhiteSpace (rev w @ rev u)"
    by (simp add: dropWhile_append)
  also have "\<dots> = rev w @ rev u" using assms by (cases w rule: rev_cases) auto
  finally have "trimEnd (u @ w @ v) = u @ w @ []" by (simp add: trimEnd_def)
  then show ?thesis by blast
next
  case False
  then have "dropWhile isWhiteSpace (rev v @ rev w @ rev u) = dropWhile isWhiteSpace (rev v) @ rev w @ rev u"
    by (auto simp add: dropWhile_append)
  then have "trimEnd (u @ w @ v) = u @ w @ rev (dropWhile isWhiteSpace (rev v))"
    by (simp add: trimEnd_def)
  then show ?thesis by blast
qed

lemma trim_keeps:
  assumes "w \<noteq> []" "\<not> isWhiteSpace (hd w)" "\<not> isWhiteSpace (last w)"
  shows "\<exists>u' v'. trim (u @ w @ v) = u' @ w @ v'"
proof -
  obtain u' where "trimStart (u @ w @ v) = u' @ w @ v" using trimStart_keeps assms by blast
  moreover obtain v' where "trimEnd (u' @ w @ v) = u' @ w @ v'" using trimEnd_keeps assms by blast
  ultimately show ?thesis by (auto simp: trim_def)
qed

lemma yes_units: "js ''yes'' = [121, 101, 115]" by (simp add: js_def)

section \<open>Evaluating the examples\<close>

lemmas demo_simps =
  demoEnv_def demoEmail_def demoJSON_def demoDate_def js_def noneText_def nullText_def
  emptyText_def acmeText_def
  AIProvider_categorizeEmail_def AIProvider_extractInformation_def parseExtractionResponse_def
  jsonMatch_def cleanValue_def falsy_def falsyStr_def validateDate_def
  buildCategorizationPrompt_def buildExtractionPrompt_def
  EmailProcessor_categorizeEmail_def EmailProcessor_extractInformation_def isRateLimit_def
  processItem_def catchError_def processEmails_def resetStats_def
  toLowerCase_def lowerUnit_def trim_def trimStart_def trimEnd_def isWhiteSpace_def
  padStart2_def showInt_def digits.simps Let_def

lemmas worker_simps =
  handleProcessEmails_def processAndSave_def startRun_def finishRun_def getScannedIds_def
  newSet_def setAdd_def markAsScanned_def updateCheckpoint_def orElse_def laterThan_def
  latestEmail_def addRecords_def emptyResults_def demoWorker_def demoSettings_def demoGmail_def

section \<open>Classification\<close>

text \<open>
  C10. When the backend answers the classification prompt with the text \<open>r\<close>,
  \<open>AIProvider.categorizeEmail\<close> returns true exactly when the lower-cased, trimmed
  \<open>r\<close> contains \<open>yes\<close>, or equals \<open>true\<close>, or equals \<open>1\<close>. In particular a
  response that holds \<open>yes\<close> anywhere, in any casing, classifies the item as a
  confirmation.
\<close>

theorem categorize_positive_iff:
  "callAI E n (buildCategorizationPrompt e) = Inr r \<longrightarrow>
     AIProvider_categorizeEmail E n e =
       Inr ((\<exists>u v. trim (toLowerCase r) = u @ js ''yes'' @ v)
            \<or> trim (toLowerCase r) = js ''true'' \<or> trim (toLowerCase r) = js ''1'')
     \<and> ((\<exists>u w v. r = u @ w @ v \<and> toLowerCase w = js ''yes'') \<longrightarrow>
          AIProvider_categorizeEmail E n e = Inr True)"
proof
  assume r: "callAI E n (buildCategorizationPrompt e) = Inr r"
  have first: "AIProvider_categorizeEmail E n e =
       Inr ((\<exists>u v. trim (toLowerCase r) = u @ js ''yes'' @ v)
            \<or> trim (toLowerCase r) = js ''true'' \<or> trim (toLowerCase r) = js ''1'')"
    using r by (simp add: AIProvider_categorizeEmail_def Let_def includesStr_iff)
  have second: "AIProvider_categorizeEmail E n e = Inr True"
    if "\<exists>u w v. r = u @ w @ v \<and> toLowerCase w = js ''yes''"
  proof -
    from that obtain u w v where uwv: "r = u @ w @ v" and w: "toLowerCase w = js ''yes''" by blast
    have low: "toLowerCase r = toLowerCase u @ js ''yes'' @ toLowerCase v"
      using uwv w by (simp add: toLowerCase_def)
    have "\<exists>u' v'. trim (toLowerCase u @ js ''yes'' @ toLowerCase v) = u' @ js ''yes'' @ v'"
      by (rule trim_keeps) (simp_all add: yes_units isWhiteSpace_def)
    then show ?thesis using first low by simp
  qed
  show "AIProvider_categorizeEmail E n e =
       Inr ((\<exists>u v. trim (toLowerCase r) = u @ js ''yes'' @ v)
            \<or> trim (toLowerCase r) = js ''true'' \<or> trim (toLowerCase r) = js ''1'')
     \<and> ((\<exists>u w v. r = u @ w @ v \<and> toLowerCase w = js ''yes'') \<longrightarrow>
          AIProvider_categorizeEmail E n e = Inr True)"
    using first second by blast
qed

theorem categorize_positive_iff_witness:
  "callAI (demoEnv answersYesterday) 0 (buildCategorizationPrompt demoEmail) = Inr (js ''NO - see YESterday'')
   \<and> js ''NO - see YESterday'' = js ''NO - see '' @ js ''YES'' @ js ''terday''
   \<and> toLowerCase (js ''YES'') = js ''yes''
   \<and> AIProvider_categorizeEmail (demoEnv answersYesterday) 0 demoEmail = Inr True"
proof -
  have a: "callAI (demoEnv answersYesterday) 0 (buildCategorizationPrompt demoEmail) = Inr (js ''NO - see YESterday'')"
    by (simp add: demoEnv_def answersYesterday_def)
  have b: "js ''NO - see YESterday'' = js ''NO - see '' @ js ''YES'' @ js ''terday''"
    by (simp add: js_def)
  have c: "toLowerCase (js ''YES'') = js ''yes''"
    by (simp add: js_def toLowerCase_def lowerUnit_def)
  from b c have "\<exists>u w v. js ''NO - see YESterday'' = u @ w @ v \<and> toLowerCase w = js ''yes''"
    by blast
  with categorize_positive_iff [of "demoEnv answersYesterday" 0 demoEmail "js ''NO - see YESterday''"] a
  have "AIProvider_categorizeEmail (demoEnv answersYesterday) 0 demoEmail = Inr True"
    by blast
  with a b c show ?thesis by blast
qed

section \<open>Null tokens in the extraction response\<close>

lemma cleanValue_JStr:
  "cleanValue (JStr s) =
     Inr (if s = [] \<or> s = js ''null'' \<or> s = js ''NULL'' \<or> s = js ''None'' then None else Some (trim s))"
  by (simp add: cleanValue_def falsy_def)

text \<open>
  C7, as amended. When the response holds a JSON block that parses and the extraction
  response is accepted, a \<open>company\<close> or \<open>position\<close> field that is a string becomes
  absent exactly when it is empty or one of the three spellings \<open>null\<close>, \<open>NULL\<close>,
  \<open>None\<close>; every other string, \<open>none\<close> and \<open>Null\<close> among them, is kept, trimmed.
\<close>

theorem parse_null_tokens:
  "jsonMatch response = Some m \<and> JSON_parse E m = Some data
     \<and> parseExtractionResponse E response = Inr x \<longrightarrow>
   (\<forall>s. data (js ''company'') = JStr s \<longrightarrow>
      ex_company x = (if s = [] \<or> s = js ''null'' \<or> s = js ''NULL'' \<or> s = js ''None''
                      then None else Some (trim s)))
   \<and> (\<forall>s. data (js ''position'') = JStr s \<longrightarrow>
      ex_position x = (if s = [] \<or> s = js ''null'' \<or> s = js ''NULL'' \<or> s = js ''None''
                       then None else Some (trim s)))"
  by (auto simp add: parseExtractionResponse_def cleanValue_JStr split: sum.splits)

lemma parse_nullText:
  "parseExtractionResponse (demoEnv noAnswers) (js ''Result: '' @ nullText) =
     Inr \<lparr>ex_company = None, ex_position = Some (js ''Engineer''), application_date = None\<rparr>"
  by (simp add: parseExtractionResponse_def jsonMatch_def js_def noneText_def nullText_def emptyText_def acmeText_def
      demoEnv_def demoJSON_def cleanValue_def falsy_def trim_def trimStart_def trimEnd_def
      isWhiteSpace_def)

lemma match_nullText: "jsonMatch (js ''Result: '' @ nullText) = Some nullText"
  by (simp add: jsonMatch_def js_def nullText_def)

theorem parse_null_tokens_witness:
  "jsonMatch (js ''Result: '' @ nullText) = Some nullText
   \<and> JSON_parse (demoEnv noAnswers) nullText \<noteq> None
   \<and> ex_company (projr (parseExtractionResponse (demoEnv noAnswers) (js ''Result: '' @ nullText))) = None"
proof -
  define data where "data = the (JSON_parse (demoEnv noAnswers) nullText)"
  have p: "JSON_parse (demoEnv noAnswers) nullText = Some data"
    by (simp add: data_def demoEnv_def demoJSON_def)
  have d: "data (js ''company'') = JStr (js ''null'')"
    by (simp add: data_def demoEnv_def demoJSON_def js_def noneText_def nullText_def emptyText_def acmeText_def)
  from parse_null_tokens [of "js ''Result: '' @ nullText" nullText "demoEnv noAnswers" data
      "\<lparr>ex_company = None, ex_position = Some (js ''Engineer''), application_date = None\<rparr>"]
    match_nullText p parse_nullText d
  show ?thesis by simp
qed

text \<open>The response \<open>{"company": "none", "position": "Engineer"}\<close> keeps the string
  \<open>none\<close> as the company.\<close>

theorem none_kept_counterexample:
  "parseExtractionResponse (demoEnv noAnswers) (js ''Result: '' @ noneText) =
     Inr \<lparr>ex_company = Some (js ''none''), ex_position = Some (js ''Engineer''), application_date = None\<rparr>"
  by (simp add: parseExtractionResponse_def jsonMatch_def js_def noneText_def nullText_def emptyText_def acmeText_def
      demoEnv_def demoJSON_def cleanValue_def falsy_def trim_def trimStart_def trimEnd_def
      isWhiteSpace_def)

section \<open>Retry on a rate limit\<close>

lemma isRateLimit_prefix: "isRateLimit m \<Longrightarrow> isRateLimit (p @ m)"
proof -
  have "\<exists>u' v'. p @ m = u' @ q @ v'" if "m = u @ q @ v" for u q v
  proof -
    from that have "p @ m = (p @ u) @ q @ v" by simp
    then show ?thesis by blast
  qed
  then show "isRateLimit m \<Longrightarrow> isRateLimit (p @ m)"
    unfolding isRateLimit_def includesStr_iff by blast
qed

text \<open>
  C6. When the provider's classify call, or its extract call, throws an error whose message
  contains \<open>rate limit\<close> or \<open>429\<close>, the processor logs one delay of 2000 ms and calls
  the provider exactly once more: two backend calls in all, and the outcome of the second,
  a value or the error it throws, is the outcome of the processor's call. A backend error
  with such a message reaches the classify retry through the provider's rethrown message.
\<close>

theorem rate_limit_single_retry:
  "(AIProvider_categorizeEmail E (calls s) e = Inl m \<and> isRateLimit m \<longrightarrow>
      EmailProcessor_categorizeEmail E e s =
        (AIProvider_categorizeEmail E (calls s + 1) e,
         s\<lparr>calls := calls s + 2, delays := delays s @ [2000]\<rparr>))
   \<and> (AIProvider_extractInformation E (calls s) e = Inl m \<and> isRateLimit m \<longrightarrow>
      EmailProcessor_extractInformation E e s =
        ((case AIProvider_extractInformation E (calls s + 1) e of
            Inr d \<Rightarrow> Inr (Some d)
          | Inl m' \<Rightarrow> Inl m'),
         s\<lparr>calls := calls s + 2, delays := delays s @ [2000]\<rparr>))
   \<and> (callAI E (calls s) (buildCategorizationPrompt e) = Inl m \<and> isRateLimit m \<longrightarrow>
      AIProvider_categorizeEmail E (calls s) e = Inl (js ''Failed to categorize email: '' @ m)
      \<and> isRateLimit (js ''Failed to categorize email: '' @ m))"
  by (simp add: EmailProcessor_categorizeEmail_def EmailProcessor_extractInformation_def
      AIProvider_categorizeEmail_def isRateLimit_prefix)

theorem rate_limit_single_retry_witness:
  "AIProvider_categorizeEmail (demoEnv answersRetryYes) 0 demoEmail
     = Inl (js ''Failed to categorize email: 429 Too Many Requests'')
   \<and> isRateLimit (js ''Failed to categorize email: 429 Too Many Requests'')
   \<and> EmailProcessor_categorizeEmail (demoEnv answersRetryYes) demoEmail
        \<lparr>records = [], stats = resetStats, emailDetails = [], calls = 0, delays = []\<rparr>
      = (Inr True, \<lparr>records = [], stats = resetStats, emailDetails = [], calls = 2, delays = [2000]\<rparr>)"
proof -
  let ?E = "demoEnv answersRetryYes"
  let ?s = "\<lparr>records = [], stats = resetStats, emailDetails = [], calls = 0, delays = []\<rparr>"
  have a: "AIProvider_categorizeEmail ?E (calls ?s) demoEmail
     = Inl (js ''Failed to categorize email: 429 Too Many Requests'')"
    by (simp add: AIProvider_categorizeEmail_def demoEnv_def answersRetryYes_def js_def)
  have b: "isRateLimit (js ''Failed to categorize email: 429 Too Many Requests'')"
    by (simp add: isRateLimit_def js_def)
  have c: "AIProvider_categorizeEmail ?E (calls ?s + 1) demoEmail = Inr True"
    by (simp add: AIProvider_categorizeEmail_def demoEnv_def answersRetryYes_def js_def
        toLowerCase_def lowerUnit_def trim_def trimStart_def trimEnd_def isWhiteSpace_def)
  from rate_limit_single_retry [of ?E ?s demoEmail "js ''Failed to categorize email: 429 Too Many Requests''"] a b
  have "EmailProcessor_categorizeEmail ?E demoEmail ?s =
        (AIProvider_categorizeEmail ?E (calls ?s + 1) demoEmail,
         ?s\<lparr>calls := calls ?s + 2, delays := delays ?s @ [2000]\<rparr>)"
    by blast
  with c have "EmailProcessor_categorizeEmail ?E demoEmail ?s
      = (Inr True, \<lparr>records = [], stats = resetStats, emailDetails = [], calls = 2, delays = [2000]\<rparr>)"
    by simp
  with a b show ?thesis by simp
qed

section \<open>The loop body\<close>

lemma categorize_stats:
  "EmailProcessor_categorizeEmail E e (s\<lparr>stats := st\<rparr>) =
     (fst (EmailProcessor_categorizeEmail E e s), (snd (EmailProcessor_categorizeEmail E e s))\<lparr>stats := st\<rparr>)"
  by (simp add: EmailProcessor_categorizeEmail_def split: sum.splits)

lemma categorize_frame:
  "records (snd (EmailProcessor_categorizeEmail E e s)) = records s
   \<and> emailDetails (snd (EmailProcessor_categorizeEmail E e s)) = emailDetails s
   \<and> stats (snd (EmailProcessor_categorizeEmail E e s)) = stats s"
  by (simp add: EmailProcessor_categorizeEmail_def split: sum.splits)

lemma extract_frame:
  "records (snd (EmailProcessor_extractInformation E e s)) = records s
   \<and> emailDetails (snd (EmailProcessor_extractInformation E e s)) = emailDetails s
   \<and> stats (snd (EmailProcessor_extractInformation E e s)) = stats s"
  by (simp add: EmailProcessor_extractInformation_def split: sum.splits)

lemma processItem_log: "\<exists>info. emailDetails (processItem E i e s) = emailDetails s @ [info]"
proof -
  obtain r1 s2 where c: "EmailProcessor_categorizeEmail E e s = (r1, s2)" by (cases "EmailProcessor_categorizeEmail E e s")
  have f1: "emailDetails s2 = emailDetails s" using categorize_frame [of E e s] c by simp
  let ?s3 = "s2\<lparr>stats := (stats s)\<lparr>emailsScanned := emailsScanned (stats s) + 1,
     confirmationsFound := confirmationsFound (stats s) + 1\<rparr>\<rparr>"
  obtain r2 s4 where x: "EmailProcessor_extractInformation E e ?s3 = (r2, s4)"
    by (cases "EmailProcessor_extractInformation E e ?s3")
  have f2: "emailDetails s4 = emailDetails s" using extract_frame [of E e ?s3] x f1 by simp
  have st: "stats s2 = stats s" using categorize_frame [of E e s] c by simp
  show ?thesis
    using c x f1 f2 st
    by (auto simp add: processItem_def Let_def categorize_stats catchError_def
        split: sum.splits option.splits)
qed

lemma processLoop_log_length:
  "(\<forall>j. \<not> shouldStop E j) \<Longrightarrow>
     length (emailDetails (processLoop E emails i s)) = length (emailDetails s) + length emails"
proof (induction emails arbitrary: i s)
  case Nil
  show ?case by simp
next
  case (Cons e rest)
  obtain info where "emailDetails (processItem E i e s) = emailDetails s @ [info]"
    using processItem_log by blast
  then show ?case using Cons by simp
qed

lemma failure_messages_not_rate_limit:
  "\<not> isRateLimit (js ''Failed to parse AI response'')"
  "\<not> isRateLimit (js ''Could not extract company or position from email'')"
  by (simp_all add: isRateLimit_def js_def)

lemma provider_failure_not_rate_limit:
  "callAI E n (buildExtractionPrompt e) = Inr r \<Longrightarrow> AIProvider_extractInformation E n e = Inl m
     \<Longrightarrow> \<not> isRateLimit m"
  using failure_messages_not_rate_limit
  by (auto simp add: AIProvider_extractInformation_def parseExtractionResponse_def Let_def
      split: sum.splits option.splits if_splits)

text \<open>
  C5, as amended. For an item that passes classification and whose extraction by the
  provider fails with the message \<open>m\<close>: when \<open>m\<close> is not rate-limit-typed, the item's
  outcome is \<open>Extraction failed\<close>, with no error counted and no record added; every
  failure behind an answered backend call (no JSON, unparseable JSON, both fields absent) is
  of that kind. When \<open>m\<close> is rate-limit-typed and the one retry fails with \<open>m'\<close>, the
  outcome is \<open>Error: m'\<close> and the error count goes up by one. Either way the item gets
  exactly one log entry, the loop goes on with the next item, and a run that is not
  cancelled logs every item.
\<close>

theorem extraction_failure_outcome:
  "fst (EmailProcessor_categorizeEmail E e s) = Inr True
   \<and> n = calls (snd (EmailProcessor_categorizeEmail E e s))
   \<and> AIProvider_extractInformation E n e = Inl m \<longrightarrow>
     (\<not> isRateLimit m \<longrightarrow>
        (\<exists>info. emailDetails (processItem E i e s) = emailDetails s @ [info]
           \<and> status info = Some (js ''Extraction failed'') \<and> error info = None)
        \<and> errors (stats (processItem E i e s)) = errors (stats s)
        \<and> records (processItem E i e s) = records s)
     \<and> (isRateLimit m \<longrightarrow> (\<forall>m'. AIProvider_extractInformation E (n + 1) e = Inl m' \<longrightarrow>
        (\<exists>info. emailDetails (processItem E i e s) = emailDetails s @ [info]
           \<and> status info = Some (js ''Error: '' @ m') \<and> error info = Some m')
        \<and> errors (stats (processItem E i e s)) = errors (stats s) + 1
        \<and> records (processItem E i e s) = records s))
     \<and> ((\<exists>r. callAI E n (buildExtractionPrompt e) = Inr r) \<longrightarrow> \<not> isRateLimit m)
     \<and> (\<not> shouldStop E i \<longrightarrow>
          processLoop E (e # rest) i s = processLoop E rest (i + 1) (processItem E i e s))
     \<and> ((\<forall>j. \<not> shouldStop E j) \<longrightarrow>
          length (emailDetails (processEmails E emails)) = length emails)"
proof (intro impI, elim conjE)
  assume c1: "fst (EmailProcessor_categorizeEmail E e s) = Inr True"
    and n: "n = calls (snd (EmailProcessor_categorizeEmail E e s))"
    and x: "AIProvider_extractInformation E n e = Inl m"
  obtain s2 where c: "EmailProcessor_categorizeEmail E e s = (Inr True, s2)"
    using c1 by (cases "EmailProcessor_categorizeEmail E e s") simp
  have fr: "records s2 = records s" "emailDetails s2 = emailDetails s" "stats s2 = stats s"
    using categorize_frame [of E e s] c by simp_all
  have n2: "n = calls s2" using n c by simp
  have A: "\<not> isRateLimit m \<longrightarrow>
        (\<exists>info. emailDetails (processItem E i e s) = emailDetails s @ [info]
           \<and> status info = Some (js ''Extraction failed'') \<and> error info = None)
        \<and> errors (stats (processItem E i e s)) = errors (stats s)
        \<and> records (processItem E i e s) = records s"
    using c fr n2 x
    by (simp add: processItem_def Let_def categorize_stats EmailProcessor_extractInformation_def)
  have B: "isRateLimit m \<longrightarrow> (\<forall>m'. AIProvider_extractInformation E (n + 1) e = Inl m' \<longrightarrow>
        (\<exists>info. emailDetails (processItem E i e s) = emailDetails s @ [info]
           \<and> status info = Some (js ''Error: '' @ m') \<and> error info = Some m')
        \<and> errors (stats (processItem E i e s)) = errors (stats s) + 1
        \<and> records (processItem E i e s) = records s)"
    using c fr n2 x
    by (simp add: processItem_def Let_def categorize_stats EmailProcessor_extractInformation_def
        catchError_def)
  have C: "(\<exists>r. callAI E n (buildExtractionPrompt e) = Inr r) \<longrightarrow> \<not> isRateLimit m"
    using provider_failure_not_rate_limit x by blast
  have D: "\<not> shouldStop E i \<longrightarrow>
          processLoop E (e # rest) i s = processLoop E rest (i + 1) (processItem E i e s)"
    by simp
  have F: "(\<forall>j. \<not> shouldStop E j) \<longrightarrow>
          length (emailDetails (processEmails E emails)) = length emails"
    by (simp add: processEmails_def processLoop_log_length)
  from A B C D F show "(\<not> isRateLimit m \<longrightarrow>
        (\<exists>info. emailDetails (processItem E i e s) = emailDetails s @ [info]
           \<and> status info = Some (js ''Extraction failed'') \<and> error info = None)
        \<and> errors (stats (processItem E i e s)) = errors (stats s)
        \<and> records (processItem E i e s) = records s)
     \<and> (isRateLimit m \<longrightarrow> (\<forall>m'. AIProvider_extractInformation E (n + 1) e = Inl m' \<longrightarrow>
        (\<exists>info. emailDetails (processItem E i e s) = emailDetails s @ [info]
           \<and> status info = Some (js ''Error: '' @ m') \<and> error info = Some m')
        \<and> errors (stats (processItem E i e s)) = errors (stats s) + 1
        \<and> records (processItem E i e s) = records s))
     \<and> ((\<exists>r. callAI E n (buildExtractionPrompt e) = Inr r) \<longrightarrow> \<not> isRateLimit m)
     \<and> (\<not> shouldStop E i \<longrightarrow>
          processLoop E (e # rest) i s = processLoop E rest (i + 1) (processItem E i e s))
     \<and> ((\<forall>j. \<not> shouldStop E j) \<longrightarrow>
          length (emailDetails (processEmails E emails)) = length emails)"
    by blast
qed

theorem extraction_failure_outcome_witness:
  "fst (EmailProcessor_categorizeEmail (demoEnv answersEmpty) demoEmail
         \<lparr>records = [], stats = resetStats, emailDetails = [], calls = 0, delays = []\<rparr>) = Inr True
   \<and> AIProvider_extractInformation (demoEnv answersEmpty) 1 demoEmail
         = Inl (js ''Could not extract company or position from email'')
   \<and> \<not> isRateLimit (js ''Could not extract company or position from email'')
   \<and> map status (emailDetails (processItem (demoEnv answersEmpty) 0 demoEmail
         \<lparr>records = [], stats = resetStats, emailDetails = [], calls = 0, delays = []\<rparr>))
       = [Some (js ''Extraction failed'')]"
proof -
  let ?E = "demoEnv answersEmpty"
  let ?s = "\<lparr>records = [], stats = resetStats, emailDetails = [], calls = 0, delays = []\<rparr>"
  let ?m = "js ''Could not extract company or position from email''"
  have c: "EmailProcessor_categorizeEmail ?E demoEmail ?s = (Inr True, ?s\<lparr>calls := 1\<rparr>)"
    by (simp add: demo_simps answersEmpty_def)
  have a: "fst (EmailProcessor_categorizeEmail ?E demoEmail ?s) = Inr True"
    and n: "1 = calls (snd (EmailProcessor_categorizeEmail ?E demoEmail ?s))"
    using c by simp_all
  have x: "AIProvider_extractInformation ?E 1 demoEmail = Inl ?m"
    by (simp add: demo_simps answersEmpty_def)
  have r: "\<not> isRateLimit ?m"
    by (simp add: isRateLimit_def js_def)
  from extraction_failure_outcome [of ?E demoEmail ?s 1 ?m 0] a n x r
  have "\<exists>info. emailDetails (processItem ?E 0 demoEmail ?s) = emailDetails ?s @ [info]
           \<and> status info = Some (js ''Extraction failed'') \<and> error info = None"
    by blast
  then have "map status (emailDetails (processItem ?E 0 demoEmail ?s)) = [Some (js ''Extraction failed'')]"
    by auto
  with a x r show ?thesis by blast
qed

text \<open>The item is classified positive, the extract call is rate-limited and so is its
  retry: the outcome is an error, not \<open>Extraction failed\<close>.\<close>

theorem retry_failure_counterexample:
  "map (\<lambda>info. (isConfirmation info, status info))
       (emailDetails (processEmails (demoEnv answersRateLimited) [demoEmail]))
     = [(True, Some (js ''Error: rate limit exceeded''))]"
  by (simp add: demo_simps answersRateLimited_def)

section \<open>The date of a persisted record\<close>

lemma processItem_records:
  "records (processItem E i e s) = records s
   \<or> (\<exists>c p. records (processItem E i e s) = records s @
         [\<lparr>message_id = messageId e, company = c, position = p, email_title = subject e,
           email_date = date e, processed_timestamp = nowISO E i\<rparr>])"
proof -
  obtain r1 s2 where c: "EmailProcessor_categorizeEmail E e s = (r1, s2)"
    by (cases "EmailProcessor_categorizeEmail E e s")
  have f1: "records s2 = records s" "stats s2 = stats s" using categorize_frame [of E e s] c by simp_all
  let ?s3 = "s2\<lparr>stats := (stats s)\<lparr>emailsScanned := emailsScanned (stats s) + 1,
     confirmationsFound := confirmationsFound (stats s) + 1\<rparr>\<rparr>"
  obtain r2 s4 where x: "EmailProcessor_extractInformation E e ?s3 = (r2, s4)"
    by (cases "EmailProcessor_extractInformation E e ?s3")
  have f2: "records s4 = records s" using extract_frame [of E e ?s3] x f1 by simp
  show ?thesis
    using c x f1 f2
    by (auto simp add: processItem_def Let_def categorize_stats catchError_def
        split: sum.splits option.splits)
qed

lemma processLoop_records:
  "r \<in> set (records (processLoop E emails i s)) \<Longrightarrow>
     r \<in> set (records s)
     \<or> (\<exists>e\<in>set emails. message_id r = messageId e \<and> email_date r = date e \<and> email_title r = subject e)"
proof (induction emails arbitrary: i s)
  case Nil
  then show ?case by simp
next
  case (Cons e rest)
  show ?case
  proof (cases "shouldStop E i")
    case True
    with Cons.prems show ?thesis by simp
  next
    case False
    with Cons.prems have "r \<in> set (records (processLoop E rest (i + 1) (processItem E i e s)))"
      by simp
    from Cons.IH [OF this] consider "r \<in> set (records (processItem E i e s))"
      | "\<exists>e\<in>set rest. message_id r = messageId e \<and> email_date r = date e \<and> email_title r = subject e"
      by blast
    then show ?thesis
    proof cases
      case 1
      with processItem_records [of E i e s] show ?thesis by auto
    next
      case 2
      then show ?thesis by auto
    qed
  qed
qed

lemma processEmails_records:
  "r \<in> set (records (processEmails E emails)) \<Longrightarrow>
     \<exists>e\<in>set emails. message_id r = messageId e \<and> email_date r = date e \<and> email_title r = subject e"
  using processLoop_records
    [of r E emails 0 "\<lparr>records = [], stats = resetStats, emailDetails = [], calls = 0, delays = []\<rparr>"]
  by (simp add: processEmails_def)

lemma markAsScanned_csvRecords: "csvRecords (markAsScanned ids w) = csvRecords w"
  by (simp add: markAsScanned_def)

lemma processAndSave_csvRecords:
  "r \<in> set (csvRecords (snd (processAndSave E emails unscanned n w))) \<Longrightarrow>
     r \<in> set (csvRecords w) \<or> r \<in> set (records (processEmails E unscanned))"
  by (auto simp add: processAndSave_def Let_def markAsScanned_csvRecords addRecords_def
      updateCheckpoint_def split: if_splits list.splits)

text \<open>
  C8. Every record in the table after a run was there before the run, or carries the
  message id, the subject and the \<open>date\<close> of an item the run fetched: the record's
  \<open>email_date\<close> is the item's own date, whatever the backend answered. The extraction's
  \<open>application_date\<close> is no field of a record.
\<close>

theorem persisted_date_is_email_date:
  "\<forall>r\<in>set (csvRecords (snd (handleProcessEmails E G st w))).
     r \<in> set (csvRecords w)
     \<or> (\<exists>emails. fetchEmails G (orElse (timePeriod st) (cfg_timePeriod w))
                     (min (orElse (emailLimit st) (cfg_emailLimit w) + length (getScannedIds w)) 500)
                   = Inr emails
          \<and> (\<exists>e\<in>set emails. message_id r = messageId e \<and> email_date r = date e
                \<and> email_title r = subject e))"
proof
  fix r
  assume r: "r \<in> set (csvRecords (snd (handleProcessEmails E G st w)))"
  let ?w = "startRun w"
  let ?lim = "orElse (emailLimit st) (cfg_emailLimit w)"
  let ?fetch = "fetchEmails G (orElse (timePeriod st) (cfg_timePeriod w))
                     (min (?lim + length (getScannedIds w)) 500)"
  have sw: "csvRecords ?w = csvRecords w" "getScannedIds ?w = getScannedIds w"
    "cfg_emailLimit ?w = cfg_emailLimit w" "cfg_timePeriod ?w = cfg_timePeriod w"
    by (simp_all add: startRun_def getScannedIds_def)
  show "r \<in> set (csvRecords w)
     \<or> (\<exists>emails. ?fetch = Inr emails
          \<and> (\<exists>e\<in>set emails. message_id r = messageId e \<and> email_date r = date e
                \<and> email_title r = subject e))"
  proof (cases "r \<in> set (csvRecords w)")
    case True
    then show ?thesis by simp
  next
    case False
    from r False sw obtain emails where f: "?fetch = Inr emails"
      and rr: "r \<in> set (csvRecords (snd (processAndSave E emails
                 (take ?lim (filter (\<lambda>e. messageId e \<notin> set (getScannedIds w)) emails))
                 (length emails - length (filter (\<lambda>e. messageId e \<notin> set (getScannedIds w)) emails))
                 ?w)))"
      by (auto simp add: handleProcessEmails_def Let_def finishRun_def
          split: sum.splits if_splits prod.splits)
    from processAndSave_csvRecords [OF rr] False sw
    have "r \<in> set (records (processEmails E
             (take ?lim (filter (\<lambda>e. messageId e \<notin> set (getScannedIds w)) emails))))"
      by simp
    from processEmails_records [OF this]
    obtain e where "e \<in> set (take ?lim (filter (\<lambda>e. messageId e \<notin> set (getScannedIds w)) emails))"
      and e: "message_id r = messageId e \<and> email_date r = date e \<and> email_title r = subject e"
      by blast
    then have "e \<in> set emails" by (auto dest: in_set_takeD)
    with f e show ?thesis by blast
  qed
qed

lemma acme_run:
  "csvRecords (snd (handleProcessEmails (demoEnv answersAcme) (demoGmail [demoEmail]) demoSettings demoWorker))
     = [acmeRecord]"
  by (simp add: worker_simps demo_simps answersAcme_def acmeRecord_def)

theorem persisted_date_is_email_date_witness:
  "acmeRecord \<in> set (csvRecords (snd (handleProcessEmails (demoEnv answersAcme)
       (demoGmail [demoEmail]) demoSettings demoWorker)))
   \<and> callAI (demoEnv answersAcme) 1 (buildExtractionPrompt demoEmail) = Inr (js ''Here it is: '' @ acmeText)
   \<and> email_date acmeRecord = date demoEmail"
proof -
  let ?E = "demoEnv answersAcme"
  let ?G = "demoGmail [demoEmail]"
  have m: "acmeRecord \<in> set (csvRecords (snd (handleProcessEmails ?E ?G demoSettings demoWorker)))"
    by (simp add: acme_run)
  have n: "acmeRecord \<notin> set (csvRecords demoWorker)"
    by (simp add: demoWorker_def)
  have f: "fetchEmails ?G a b = Inr emails \<Longrightarrow> set emails \<subseteq> {demoEmail}" for a b emails
    by (auto simp add: demoGmail_def dest: in_set_takeD)
  from persisted_date_is_email_date [of ?E ?G demoSettings demoWorker] m n
  obtain emails e where "fetchEmails ?G (orElse (timePeriod demoSettings) (cfg_timePeriod demoWorker))
       (min (orElse (emailLimit demoSettings) (cfg_emailLimit demoWorker)
             + length (getScannedIds demoWorker)) 500) = Inr emails"
    and "e \<in> set emails" and "email_date acmeRecord = date e"
    by blast
  with f have "email_date acmeRecord = date demoEmail" by blast
  moreover have "callAI ?E 1 (buildExtractionPrompt demoEmail) = Inr (js ''Here it is: '' @ acmeText)"
    by (simp add: demoEnv_def answersAcme_def)
  ultimately show ?thesis using m by blast
qed

section \<open>Deduplication in the record store\<close>

lemma addRecords_table:
  "fst (addRecords batch table) = table @ filter (\<lambda>r. message_id r \<notin> message_id ` set table) batch"
  by (simp add: addRecords_def)

lemma addRecords_added:
  "added (snd (addRecords batch table)) = length (filter (\<lambda>r. message_id r \<notin> message_id ` set table) batch)"
  by (simp add: addRecords_def)

lemma addRecords_ids:
  "message_id ` set (fst (addRecords batch table)) = message_id ` set table \<union> message_id ` set batch"
  by (auto simp add: addRecords_table)

lemma addRecords_distinct:
  assumes "distinct (map message_id table)" "distinct (map message_id batch)"
  shows "distinct (map message_id (fst (addRecords batch table)))"
proof -
  let ?new = "filter (\<lambda>r. message_id r \<notin> message_id ` set table) batch"
  have "distinct (map message_id ?new)" using assms by (simp add: distinct_map_filter)
  moreover have "message_id ` set table \<inter> message_id ` set ?new = {}"
  proof -
    have "x \<notin> message_id ` set table" if "x \<in> message_id ` set ?new" for x
      using that by (auto simp add: image_iff)
    then show ?thesis by blast
  qed
  ultimately show ?thesis using assms by (simp add: addRecords_table)
qed

lemma addRecords_count:
  assumes "distinct (map message_id batch)"
  shows "added (snd (addRecords batch table)) = card (message_id ` set batch - message_id ` set table)"
proof -
  let ?new = "filter (\<lambda>r. message_id r \<notin> message_id ` set table) batch"
  have d: "distinct (map message_id ?new)" using assms by (simp add: distinct_map_filter)
  have "message_id ` set ?new = message_id ` set batch - message_id ` set table" by auto
  moreover have "card (message_id ` set ?new) = length ?new"
    using d by (metis distinct_card length_map set_map)
  ultimately show ?thesis by (simp add: addRecords_added)
qed

lemma appendAll_invariant:
  "distinct (map message_id table) \<Longrightarrow> (\<forall>b\<in>set batches. distinct (map message_id b)) \<Longrightarrow>
     distinct (map message_id (fst (appendAll batches table)))
     \<and> sum_list (snd (appendAll batches table))
         = card ((\<Union>b\<in>set batches. message_id ` set b) - message_id ` set table)"
proof (induction batches arbitrary: table)
  case Nil
  then show ?case by simp
next
  case (Cons b bs)
  let ?t = "fst (addRecords b table)"
  have d: "distinct (map message_id ?t)" using Cons.prems by (simp add: addRecords_distinct)
  have ih: "distinct (map message_id (fst (appendAll bs ?t)))
     \<and> sum_list (snd (appendAll bs ?t))
         = card ((\<Union>b\<in>set bs. message_id ` set b) - message_id ` set ?t)"
    using Cons.IH [OF d] Cons.prems by simp
  let ?B = "message_id ` set b" and ?T = "message_id ` set table"
  let ?R = "\<Union>b\<in>set bs. message_id ` set b"
  have cnt: "added (snd (addRecords b table)) = card (?B - ?T)"
    using Cons.prems by (simp add: addRecords_count)
  have fin: "finite (?B - ?T)" "finite (?R - (?T \<union> ?B))" by auto
  have disj: "(?B - ?T) \<inter> (?R - (?T \<union> ?B)) = {}" by auto
  have un: "(?B - ?T) \<union> (?R - (?T \<union> ?B)) = (?B \<union> ?R) - ?T" by auto
  have "card (?B - ?T) + card (?R - (?T \<union> ?B)) = card ((?B \<union> ?R) - ?T)"
    using card_Un_disjoint [OF fin disj] un by simp
  then show ?case
    using ih cnt by (simp add: split_beta Let_def addRecords_ids)
qed

text \<open>
  C3, as amended. \<open>addRecords\<close> compares a batch with the stored table only, not with
  itself. For every sequence of calls on a table with one record per id, each call taking a
  batch whose ids are pairwise distinct, the final table holds at most one record per id, and
  the \<open>added\<close> counts sum to the number of distinct ids of the batches that were not in
  the table at the start.
\<close>

theorem append_dedup_distinct_batches:
  "distinct (map message_id table) \<and> (\<forall>b\<in>set batches. distinct (map message_id b)) \<longrightarrow>
     distinct (map message_id (fst (appendAll batches table)))
     \<and> sum_list (snd (appendAll batches table))
         = card ((\<Union>b\<in>set batches. message_id ` set b) - message_id ` set table)"
  using appendAll_invariant by blast

theorem append_dedup_distinct_batches_witness:
  "distinct (map message_id ([] :: app_record list))
   \<and> distinct (map message_id [acmeRecord]) \<and> distinct (map message_id [acmeRecord, otherRecord])
   \<and> map message_id (fst (appendAll [[acmeRecord], [acmeRecord, otherRecord]] []))
       = [js ''18d0a1'', js ''18d0b2'']
   \<and> distinct (map message_id (fst (appendAll [[acmeRecord], [acmeRecord, otherRecord]] [])))
   \<and> sum_list (snd (appendAll [[acmeRecord], [acmeRecord, otherRecord]] [])) = 2"
proof -
  have a: "distinct (map message_id ([] :: app_record list))" by simp
  have b: "distinct (map message_id [acmeRecord])" by simp
  have c: "distinct (map message_id [acmeRecord, otherRecord])"
    by (simp add: acmeRecord_def otherRecord_def js_def)
  have ids: "(\<Union>b\<in>set [[acmeRecord], [acmeRecord, otherRecord]]. message_id ` set b)
      - message_id ` set ([] :: app_record list) = {js ''18d0a1'', js ''18d0b2''}"
    by (auto simp add: acmeRecord_def otherRecord_def)
  have two: "card {js ''18d0a1'', js ''18d0b2''} = 2"
    by (simp add: js_def)
  have t: "map message_id (fst (appendAll [[acmeRecord], [acmeRecord, otherRecord]] []))
       = [js ''18d0a1'', js ''18d0b2'']"
    by (simp add: addRecords_def acmeRecord_def otherRecord_def js_def)
  from append_dedup_distinct_batches [of "[]" "[[acmeRecord], [acmeRecord, otherRecord]]"] a b c
  have "distinct (map message_id (fst (appendAll [[acmeRecord], [acmeRecord, otherRecord]] [])))
     \<and> sum_list (snd (appendAll [[acmeRecord], [acmeRecord, otherRecord]] []))
         = card ((\<Union>b\<in>set [[acmeRecord], [acmeRecord, otherRecord]]. message_id ` set b)
                 - message_id ` set ([] :: app_record list))"
    by simp
  with ids two a b c t show ?thesis by simp
qed

text \<open>One call whose batch holds the same new id twice stores both records and reports
  two added.\<close>

theorem batch_duplicate_counterexample:
  "map message_id (fst (addRecords [acmeRecord, acmeRecord] [])) = [js ''18d0a1'', js ''18d0a1'']
   \<and> added (snd (addRecords [acmeRecord, acmeRecord] [])) = 2"
  by (simp add: addRecords_def acmeRecord_def)

section \<open>The checkpoint\<close>

lemma latestEmail_no_later:
  "(\<forall>e'\<in>set done. \<not> laterThan E (date e') (date first)) \<Longrightarrow> first \<in> set done \<Longrightarrow>
     latestEmail E first rest \<in> set done \<union> set rest
     \<and> (\<forall>e'\<in>set done \<union> set rest. \<not> laterThan E (date e') (date (latestEmail E first rest)))"
proof (induction rest arbitrary: first "done")
  case Nil
  then show ?case by (simp add: latestEmail_def)
next
  case (Cons e rest)
  let ?next = "if laterThan E (date e) (date first) then e else first"
  have step: "latestEmail E first (e # rest) = latestEmail E ?next rest"
    by (simp add: latestEmail_def)
  have inv: "\<forall>e'\<in>set (e # done). \<not> laterThan E (date e') (date ?next)"
    using Cons.prems(1)
    by (auto simp add: laterThan_def split: option.splits)
  have mem: "?next \<in> set (e # done)" using Cons.prems(2) by simp
  from Cons.IH [OF inv mem] show ?case
    unfolding step by auto
qed

lemma latestEmail_max:
  "latestEmail E first rest \<in> set (first # rest)
   \<and> (\<forall>e'\<in>set (first # rest). \<not> laterThan E (date e') (date (latestEmail E first rest)))"
  using latestEmail_no_later [of "[first]" E first rest]
  by (auto simp add: laterThan_def split: option.splits)

lemma markAsScanned_checkpoint: "lastCheckpoint (markAsScanned ids w) = lastCheckpoint w"
  by (simp add: markAsScanned_def)

lemma processAndSave_checkpoint:
  "processAndSave E emails unscanned n w = (resp, w') \<Longrightarrow>
     \<exists>stopped res. resp = Succeeded stopped res
       \<and> (r_newRecords res = 0 \<longrightarrow> lastCheckpoint w' = lastCheckpoint w)
       \<and> (r_newRecords res > 0 \<longrightarrow> emails \<noteq> [] \<longrightarrow>
            (\<exists>e\<in>set emails. lastCheckpoint w' = Some (date e)
               \<and> (\<forall>e'\<in>set emails. \<not> laterThan E (date e') (date e))))"
proof -
  assume a: "processAndSave E emails unscanned n w = (resp, w')"
  show ?thesis
  proof (cases emails)
    case Nil
    with a show ?thesis
      by (auto simp add: processAndSave_def Let_def markAsScanned_checkpoint split: if_splits)
  next
    case (Cons first rest)
    from latestEmail_max [of E first rest] Cons
    have mx: "latestEmail E first rest \<in> set emails"
      "\<forall>e'\<in>set emails. \<not> laterThan E (date e') (date (latestEmail E first rest))"
      by simp_all
    from a Cons mx show ?thesis
      by (auto simp add: processAndSave_def Let_def markAsScanned_checkpoint updateCheckpoint_def
          split: if_splits)
  qed
qed

text \<open>
  C4, as amended. The checkpoint is written only in the branch that saves new records. A
  run that answers with success and saved no new record leaves \<open>lastCheckpoint\<close> as it
  was; a run that saved at least one sets it to the \<open>date\<close> of an item of the full fetched
  batch than which no fetched item with a valid date is later, whether or not that item was
  filtered out or attempted.
\<close>

theorem checkpoint_advances_with_new_records:
  "handleProcessEmails E G st w = (Succeeded stopped res, w') \<longrightarrow>
     (r_newRecords res = 0 \<longrightarrow> lastCheckpoint w' = lastCheckpoint w)
     \<and> (r_newRecords res > 0 \<longrightarrow>
          (\<exists>emails. fetchEmails G (orElse (timePeriod st) (cfg_timePeriod w))
                      (min (orElse (emailLimit st) (cfg_emailLimit w) + length (getScannedIds w)) 500)
                    = Inr emails
             \<and> (\<exists>e\<in>set emails. lastCheckpoint w' = Some (date e)
                  \<and> (\<forall>e'\<in>set emails. \<forall>d d'. newDate E (date e) = Some d
                        \<and> newDate E (date e') = Some d' \<longrightarrow> getTime d' \<le> getTime d))))"
proof
  assume run: "handleProcessEmails E G st w = (Succeeded stopped res, w')"
  let ?w = "startRun w"
  let ?lim = "orElse (emailLimit st) (cfg_emailLimit w)"
  let ?fetch = "fetchEmails G (orElse (timePeriod st) (cfg_timePeriod w))
                     (min (?lim + length (getScannedIds w)) 500)"
  have sw: "lastCheckpoint ?w = lastCheckpoint w" "getScannedIds ?w = getScannedIds w"
    "cfg_emailLimit ?w = cfg_emailLimit w" "cfg_timePeriod ?w = cfg_timePeriod w"
    by (simp_all add: startRun_def getScannedIds_def)
  have fin: "lastCheckpoint (finishRun v) = lastCheckpoint v" for v
    by (simp add: finishRun_def)
  have leq: "\<not> laterThan E a b \<Longrightarrow> newDate E b = Some d \<and> newDate E a = Some d' \<longrightarrow> getTime d' \<le> getTime d"
    for a b d d'
    by (auto simp add: laterThan_def)
  consider (early) "lastCheckpoint w' = lastCheckpoint w" "r_newRecords res = 0"
    | (saved) emails v where "?fetch = Inr emails" "emails \<noteq> []"
        "processAndSave E emails (take ?lim (filter (\<lambda>e. messageId e \<notin> set (getScannedIds w)) emails))
           (length emails - length (filter (\<lambda>e. messageId e \<notin> set (getScannedIds w)) emails)) ?w
         = (Succeeded stopped res, v)" "w' = finishRun v"
    using run sw
    by (auto simp add: handleProcessEmails_def Let_def fin emptyResults_def
        split: sum.splits if_splits prod.splits)
  then show "(r_newRecords res = 0 \<longrightarrow> lastCheckpoint w' = lastCheckpoint w)
     \<and> (r_newRecords res > 0 \<longrightarrow>
          (\<exists>emails. ?fetch = Inr emails
             \<and> (\<exists>e\<in>set emails. lastCheckpoint w' = Some (date e)
                  \<and> (\<forall>e'\<in>set emails. \<forall>d d'. newDate E (date e) = Some d
                        \<and> newDate E (date e') = Some d' \<longrightarrow> getTime d' \<le> getTime d))))"
  proof cases
    case early
    then show ?thesis by simp
  next
    case saved
    from processAndSave_checkpoint [OF saved(3)] saved(2) sw
    have z: "r_newRecords res = 0 \<longrightarrow> lastCheckpoint v = lastCheckpoint w"
      and p: "r_newRecords res > 0 \<longrightarrow>
            (\<exists>e\<in>set emails. lastCheckpoint v = Some (date e)
               \<and> (\<forall>e'\<in>set emails. \<not> laterThan E (date e') (date e)))"
      by auto
    show ?thesis
    proof (intro conjI impI)
      assume "r_newRecords res = 0"
      with z saved(4) show "lastCheckpoint w' = lastCheckpoint w" by (simp add: fin)
    next
      assume "r_newRecords res > 0"
      with p obtain e where e: "e \<in> set emails" "lastCheckpoint v = Some (date e)"
        "\<forall>e'\<in>set emails. \<not> laterThan E (date e') (date e)" by blast
      have "\<forall>e'\<in>set emails. \<forall>d d'. newDate E (date e) = Some d
                        \<and> newDate E (date e') = Some d' \<longrightarrow> getTime d' \<le> getTime d"
        using e(3) leq by blast
      with e saved(1,4) show "\<exists>emails. ?fetch = Inr emails
             \<and> (\<exists>e\<in>set emails. lastCheckpoint w' = Some (date e)
                  \<and> (\<forall>e'\<in>set emails. \<forall>d d'. newDate E (date e) = Some d
                        \<and> newDate E (date e') = Some d' \<longrightarrow> getTime d' \<le> getTime d))"
        by (auto simp add: fin)
    qed
  qed
qed

lemma acme_later_run:
  "\<exists>res w'. handleProcessEmails (demoEnv answersAcme) (demoGmail [demoEmail, laterEmail])
       demoSettings demoWorker = (Succeeded (Some False) res, w') \<and> r_newRecords res = 1"
  by (simp add: worker_simps demo_simps answersAcme_def laterEmail_def)

theorem checkpoint_advances_with_new_records_witness:
  "fetchEmails (demoGmail [demoEmail, laterEmail]) 14 50 = Inr [demoEmail, laterEmail]
   \<and> lastCheckpoint (snd (handleProcessEmails (demoEnv answersAcme)
         (demoGmail [demoEmail, laterEmail]) demoSettings demoWorker))
       = Some (date laterEmail)"
proof -
  let ?E = "demoEnv answersAcme"
  let ?G = "demoGmail [demoEmail, laterEmail]"
  obtain res w' where run: "handleProcessEmails ?E ?G demoSettings demoWorker
      = (Succeeded (Some False) res, w')" and new: "r_newRecords res = 1"
    using acme_later_run by blast
  have f: "fetchEmails ?G (orElse (timePeriod demoSettings) (cfg_timePeriod demoWorker))
       (min (orElse (emailLimit demoSettings) (cfg_emailLimit demoWorker)
             + length (getScannedIds demoWorker)) 500) = Inr [demoEmail, laterEmail]"
    by (simp add: worker_simps)
  have f': "fetchEmails ?G 14 50 = Inr [demoEmail, laterEmail]"
    by (simp add: worker_simps)
  from checkpoint_advances_with_new_records [of ?E ?G demoSettings demoWorker "Some False" res w']
    run new f
  obtain e where e: "e \<in> set [demoEmail, laterEmail]" "lastCheckpoint w' = Some (date e)"
    and mx: "\<forall>e'\<in>set [demoEmail, laterEmail]. \<forall>d d'. newDate ?E (date e) = Some d
                        \<and> newDate ?E (date e') = Some d' \<longrightarrow> getTime d' \<le> getTime d"
    by auto
  have d1: "newDate ?E (date demoEmail) = Some \<lparr>getTime = 1705314600000, getFullYear = 2024,
      getMonth = 0, getDate = 15, getHours = 10, getMinutes = 30, getSeconds = 0\<rparr>"
    by (simp add: demoEnv_def demoDate_def demoEmail_def)
  have d2: "newDate ?E (date laterEmail) = Some \<lparr>getTime = 1705392000000, getFullYear = 2024,
      getMonth = 0, getDate = 16, getHours = 8, getMinutes = 0, getSeconds = 0\<rparr>"
    by (simp add: demoEnv_def demoDate_def laterEmail_def js_def)
  have "e \<noteq> demoEmail"
  proof
    assume "e = demoEmail"
    with mx d1 d2 have "(1705392000000 :: int) \<le> 1705314600000" by fastforce
    then show False by simp
  qed
  with e have "lastCheckpoint w' = Some (date laterEmail)" by auto
  with run f' show ?thesis by simp
qed

text \<open>A run that fetches one item and classifies it negative leaves the checkpoint
  unset.\<close>

theorem no_new_record_counterexample:
  "fetchEmails (demoGmail [demoEmail]) 14 50 = Inr [demoEmail]
   \<and> lastCheckpoint (snd (handleProcessEmails (demoEnv answersNo) (demoGmail [demoEmail])
        demoSettings demoWorker)) = None"
  by (simp add: worker_simps demo_simps answersNo_def)

section \<open>One run at a time\<close>

text \<open>
  C2, as amended. The active-run state can be queried: \<open>checkProcessingState\<close> answers with
  the flag \<open>isProcessing\<close>, which \<open>handleProcessEmails\<close> sets as it starts and clears in
  its \<open>finally\<close> block. The service worker has no reentrancy guard: in every state, also
  while a run is active, a \<open>processEmails\<close> request starts an activation of
  \<open>handleProcessEmails\<close>, which sets the flag and resets the stop flag; no request is
  rejected.
\<close>

theorem run_flag_without_guard:
  "onMessage CheckProcessingState w = (RespondIsProcessing (isProcessing w), w)
   \<and> onMessage (ProcessEmails st) w = (HandlerStarted, startRun w)
   \<and> isProcessing (startRun w)
   \<and> \<not> shouldStopProcessing (startRun w)
   \<and> activeRuns (startRun w) = activeRuns w + 1
   \<and> \<not> isProcessing (finishRun w)
   \<and> \<not> isProcessing (snd (handleProcessEmails E G st w))
   \<and> activeRuns (snd (handleProcessEmails E G st w)) = activeRuns w"
proof -
  have keep: "activeRuns (snd (processAndSave E emails unscanned n v)) = activeRuns v"
    for emails unscanned n v
    by (simp add: processAndSave_def Let_def markAsScanned_def updateCheckpoint_def
        split: list.splits)
  have "activeRuns (snd (handleProcessEmails E G st w)) = activeRuns w"
    by (simp add: handleProcessEmails_def Let_def split_beta finishRun_def startRun_def keep
        split: sum.splits)
  moreover have "\<not> isProcessing (snd (handleProcessEmails E G st w))"
    by (simp add: handleProcessEmails_def Let_def split_beta finishRun_def)
  ultimately show ?thesis
    by (simp add: onMessage_def startRun_def finishRun_def)
qed

text \<open>Two \<open>processEmails\<close> requests in a row: the second arrives while the flag is set
  and starts a second activation; when one of the two finishes, the flag is cleared although
  one is still active.\<close>

theorem second_run_counterexample:
  "isProcessing (snd (onMessage (ProcessEmails demoSettings) demoWorker))
   \<and> fst (onMessage (ProcessEmails demoSettings)
            (snd (onMessage (ProcessEmails demoSettings) demoWorker))) = HandlerStarted
   \<and> activeRuns (snd (onMessage (ProcessEmails demoSettings)
            (snd (onMessage (ProcessEmails demoSettings) demoWorker)))) = 2
   \<and> \<not> isProcessing (finishRun (snd (onMessage (ProcessEmails demoSettings)
            (snd (onMessage (ProcessEmails demoSettings) demoWorker)))))
   \<and> activeRuns (finishRun (snd (onMessage (ProcessEmails demoSettings)
            (snd (onMessage (ProcessEmails demoSettings) demoWorker))))) = 1"
  by (simp add: onMessage_def startRun_def finishRun_def demoWorker_def)

section \<open>Cancellation\<close>

lemma parse_stop_irrelevant:
  "parseExtractionResponse (E\<lparr>shouldStop := f\<rparr>) r = parseExtractionResponse E r"
  "validateDate (E\<lparr>shouldStop := f\<rparr>) d = validateDate E d"
  by (simp_all add: parseExtractionResponse_def validateDate_def
      cong: option.case_cong sum.case_cong)

lemma provider_stop_irrelevant:
  "AIProvider_categorizeEmail (E\<lparr>shouldStop := f\<rparr>) n e = AIProvider_categorizeEmail E n e"
  "AIProvider_extractInformation (E\<lparr>shouldStop := f\<rparr>) n e = AIProvider_extractInformation E n e"
  by (simp_all add: AIProvider_categorizeEmail_def AIProvider_extractInformation_def
      parse_stop_irrelevant cong: sum.case_cong)

lemma processor_stop_irrelevant:
  "EmailProcessor_categorizeEmail (E\<lparr>shouldStop := f\<rparr>) e s = EmailProcessor_categorizeEmail E e s"
  "EmailProcessor_extractInformation (E\<lparr>shouldStop := f\<rparr>) e s = EmailProcessor_extractInformation E e s"
  by (simp_all add: EmailProcessor_categorizeEmail_def EmailProcessor_extractInformation_def
      provider_stop_irrelevant cong: sum.case_cong if_cong)

lemma processItem_stop_irrelevant:
  "processItem (E\<lparr>shouldStop := f\<rparr>) i e s = processItem E i e s"
  by (simp add: processItem_def processor_stop_irrelevant
      cong: sum.case_cong option.case_cong prod.case_cong if_cong)

lemma processLoop_cancel:
  "(\<forall>j. i \<le> j \<and> j < i + k \<longrightarrow> \<not> shouldStop E j) \<Longrightarrow>
   (k < length emails \<longrightarrow> shouldStop E (i + k)) \<Longrightarrow>
     processLoop E emails i s = processLoop (E\<lparr>shouldStop := neverStop\<rparr>) (take k emails) i s"
proof (induction emails arbitrary: i k s)
  case Nil
  show ?case by simp
next
  case (Cons e rest)
  show ?case
  proof (cases k)
    case 0
    with Cons.prems show ?thesis by simp
  next
    case (Suc k')
    have a: "\<forall>j. i + 1 \<le> j \<and> j < (i + 1) + k' \<longrightarrow> \<not> shouldStop E j"
      using Cons.prems(1) Suc by auto
    have b: "k' < length rest \<longrightarrow> shouldStop E ((i + 1) + k')"
      using Cons.prems(2) Suc by auto
    have c: "\<not> shouldStop E i" using Cons.prems(1) Suc by auto
    from Cons.IH [OF a b] c Suc show ?thesis
      by (simp add: processItem_stop_irrelevant neverStop_def)
  qed
qed

lemma processItem_entry:
  "\<exists>info. emailDetails (processItem E i e s) = emailDetails s @ [info]
     \<and> index info = i + 1 \<and> i_subject info = subject e \<and> i_from info = sender e
     \<and> i_date info = date e"
proof -
  obtain r1 s2 where c: "EmailProcessor_categorizeEmail E e s = (r1, s2)"
    by (cases "EmailProcessor_categorizeEmail E e s")
  have f1: "emailDetails s2 = emailDetails s" "stats s2 = stats s"
    using categorize_frame [of E e s] c by simp_all
  let ?s3 = "s2\<lparr>stats := (stats s)\<lparr>emailsScanned := emailsScanned (stats s) + 1,
     confirmationsFound := confirmationsFound (stats s) + 1\<rparr>\<rparr>"
  obtain r2 s4 where x: "EmailProcessor_extractInformation E e ?s3 = (r2, s4)"
    by (cases "EmailProcessor_extractInformation E e ?s3")
  have f2: "emailDetails s4 = emailDetails s" using extract_frame [of E e ?s3] x f1 by simp
  show ?thesis
    using c x f1 f2
    by (auto simp add: processItem_def Let_def categorize_stats catchError_def
        split: sum.splits option.splits)
qed

lemma processLoop_entries:
  "(\<forall>j. \<not> shouldStop E j) \<Longrightarrow>
     map index (emailDetails (processLoop E emails i s))
       = map index (emailDetails s) @ [i + 1 ..< i + 1 + length emails]
     \<and> map i_subject (emailDetails (processLoop E emails i s))
       = map i_subject (emailDetails s) @ map subject emails
     \<and> map i_from (emailDetails (processLoop E emails i s))
       = map i_from (emailDetails s) @ map sender emails
     \<and> map i_date (emailDetails (processLoop E emails i s))
       = map i_date (emailDetails s) @ map date emails"
proof (induction emails arbitrary: i s)
  case Nil
  show ?case by simp
next
  case (Cons e rest)
  obtain info where info: "emailDetails (processItem E i e s) = emailDetails s @ [info]"
    "index info = i + 1" "i_subject info = subject e" "i_from info = sender e"
    "i_date info = date e"
    using processItem_entry by blast
  have up: "[i + 1 ..< i + 1 + length (e # rest)] = (i + 1) # [i + 1 + 1 ..< i + 1 + 1 + length rest]"
    by (simp add: upt_rec)
  from Cons.IH [OF Cons.prems, of "i + 1" "processItem E i e s"] Cons.prems info
  show ?case unfolding up by simp
qed

lemma set_foldl_setAdd: "set (foldl setAdd s xs) = set s \<union> set xs"
  by (induction xs arbitrary: s) (auto simp add: setAdd_def)

lemma set_newSet: "set (newSet xs) = set xs"
  by (simp add: newSet_def set_foldl_setAdd)

lemma nth_ids_take:
  "k \<le> length xs \<Longrightarrow> map (\<lambda>idx. f (xs ! idx)) [0..<k] = map f (take k xs)"
proof -
  assume "k \<le> length xs"
  then have "take k xs = map ((!) xs) [0..<k]"
    by (metis length_take map_nth min.absorb2 nth_take map_eq_conv atLeastLessThan_iff set_upt)
  then show ?thesis by simp
qed

lemma processEmails_cancelled:
  assumes "k \<le> length items" "\<forall>j<k. \<not> shouldStop E j" "k < length items \<longrightarrow> shouldStop E k"
  shows "processEmails E items = processEmails (E\<lparr>shouldStop := neverStop\<rparr>) (take k items)"
  using processLoop_cancel [of 0 k E items] assms by (simp add: processEmails_def)

lemma processEmails_entries:
  "map index (emailDetails (processEmails (E\<lparr>shouldStop := neverStop\<rparr>) items)) = [1 ..< length items + 1]
   \<and> map i_subject (emailDetails (processEmails (E\<lparr>shouldStop := neverStop\<rparr>) items)) = map subject items
   \<and> map i_from (emailDetails (processEmails (E\<lparr>shouldStop := neverStop\<rparr>) items)) = map sender items
   \<and> map i_date (emailDetails (processEmails (E\<lparr>shouldStop := neverStop\<rparr>) items)) = map date items"
  using processLoop_entries [of "E\<lparr>shouldStop := neverStop\<rparr>" items 0
      "\<lparr>records = [], stats = resetStats, emailDetails = [], calls = 0, delays = []\<rparr>"]
  by (simp add: processEmails_def neverStop_def)

lemma processEmails_log_length:
  "length (emailDetails (processEmails (E\<lparr>shouldStop := neverStop\<rparr>) items)) = length items"
proof -
  let ?log = "emailDetails (processEmails (E\<lparr>shouldStop := neverStop\<rparr>) items)"
  have "length ?log = length (map index ?log)" by simp
  also have "\<dots> = length [1 ..< length items + 1]"
    using processEmails_entries [of E items] by (simp only:)
  also have "\<dots> = length items" by (simp del: upt_Suc)
  finally show ?thesis .
qed

lemma markAsScanned_ids:
  "set (scannedEmailIds (markAsScanned ids w)) = set (scannedEmailIds w) \<union> set ids"
  by (simp add: markAsScanned_def getScannedIds_def set_foldl_setAdd set_newSet)

lemma processAndSave_cancelled:
  assumes k: "k < length items" and run: "\<forall>j<k. \<not> shouldStop E j" and stop: "shouldStop E k"
    and ids: "\<forall>e\<in>set items. messageId e \<noteq> []"
  shows "(\<exists>res. fst (processAndSave E emails items n w) = Succeeded (Some True) res
           \<and> r_emailDetails res
               = Some (emailDetails (processEmails (E\<lparr>shouldStop := neverStop\<rparr>) (take k items))))
     \<and> set (scannedEmailIds (snd (processAndSave E emails items n w)))
         = set (scannedEmailIds w) \<union> messageId ` set (take k items)
     \<and> csvRecords (snd (processAndSave E emails items n w))
         = csvRecords w @ filter (\<lambda>r. message_id r \<notin> message_id ` set (csvRecords w))
             (records (processEmails (E\<lparr>shouldStop := neverStop\<rparr>) (take k items)))"
proof -
  let ?p = "processEmails (E\<lparr>shouldStop := neverStop\<rparr>) (take k items)"
  have p: "processEmails E items = ?p"
    using processEmails_cancelled [of k items E] k run stop by simp
  have len: "length (emailDetails ?p) = k"
    using processEmails_log_length [of E "take k items"] k by simp
  have pid: "filter (\<lambda>id. id \<noteq> []) (map (\<lambda>idx. messageId (items ! idx)) [0..<k])
      = map messageId (take k items)"
  proof -
    have "map (\<lambda>idx. messageId (items ! idx)) [0..<k] = map messageId (take k items)"
      using nth_ids_take [of k items messageId] k by simp
    moreover have "\<forall>x\<in>set (map messageId (take k items)). x \<noteq> []"
      using ids by (auto dest: in_set_takeD)
    ultimately show ?thesis by (simp add: filter_id_conv)
  qed
  show ?thesis
    by (auto simp add: processAndSave_def Let_def p len stop pid addRecords_def
        updateCheckpoint_def markAsScanned_ids markAsScanned_csvRecords
        split: list.splits)
qed

lemma handleProcessEmails_fetched:
  assumes tok: "getAccessToken G = Inr (Some token)" "token \<noteq> []"
    and fetch: "fetchEmails G (orElse (timePeriod st) (cfg_timePeriod w))
        (min (orElse (emailLimit st) (cfg_emailLimit w) + length (getScannedIds w)) 500) = Inr emails"
    and items: "items = take (orElse (emailLimit st) (cfg_emailLimit w))
        (filter (\<lambda>e. messageId e \<notin> set (getScannedIds w)) emails)"
    and ne: "items \<noteq> []"
  shows "handleProcessEmails E G st w =
     (fst (processAndSave E emails items
             (length emails - length (filter (\<lambda>e. messageId e \<notin> set (getScannedIds w)) emails))
             (startRun w)),
      finishRun (snd (processAndSave E emails items
             (length emails - length (filter (\<lambda>e. messageId e \<notin> set (getScannedIds w)) emails))
             (startRun w))))"
proof -
  have sw: "getScannedIds (startRun w) = getScannedIds w"
    "cfg_emailLimit (startRun w) = cfg_emailLimit w" "cfg_timePeriod (startRun w) = cfg_timePeriod w"
    by (simp_all add: startRun_def getScannedIds_def)
  have "emails \<noteq> []" using items ne by auto
  then show ?thesis
    using tok fetch items ne
    by (simp add: handleProcessEmails_def Let_def sw falsyStr_def split_beta)
qed

text \<open>
  C1. A run with a token fetches items with pairwise distinct, non-empty ids; \<open>items\<close> are
  the \<open>n\<close> filtered items it is left with. When the stop flag is first seen set at the
  check behind item \<open>k\<close> (\<open>k < n\<close>), the run answers with \<open>stopped = true\<close> and the log
  of an uncancelled run over the first \<open>k\<close> items alone: \<open>k\<close> entries, entry \<open>j\<close> for
  item \<open>j\<close>. The ids of items 1..k are in the scanned set afterwards, the ids of items
  k+1..n are not, and the records extracted from items 1..k are appended to the table (those
  with a stored id apart).
\<close>

theorem cancellation_after_item_k:
  "getAccessToken G = Inr (Some token) \<and> token \<noteq> []
   \<and> fetchEmails G (orElse (timePeriod st) (cfg_timePeriod w))
        (min (orElse (emailLimit st) (cfg_emailLimit w) + length (getScannedIds w)) 500) = Inr emails
   \<and> distinct (map messageId emails) \<and> (\<forall>e\<in>set emails. messageId e \<noteq> [])
   \<and> items = take (orElse (emailLimit st) (cfg_emailLimit w))
        (filter (\<lambda>e. messageId e \<notin> set (getScannedIds w)) emails)
   \<and> k < length items \<and> (\<forall>j<k. \<not> shouldStop E j) \<and> shouldStop E k
   \<and> handleProcessEmails E G st w = (resp, w') \<longrightarrow>
     (\<exists>res log. resp = Succeeded (Some True) res \<and> r_emailDetails res = Some log
        \<and> log = emailDetails (processEmails (E\<lparr>shouldStop := neverStop\<rparr>) (take k items))
        \<and> length log = k \<and> map index log = [1 ..< k + 1]
        \<and> map i_subject log = map subject (take k items)
        \<and> map i_from log = map sender (take k items)
        \<and> map i_date log = map date (take k items))
     \<and> set (scannedEmailIds w') = set (scannedEmailIds w) \<union> messageId ` set (take k items)
     \<and> (\<forall>j<k. messageId (items ! j) \<in> set (scannedEmailIds w'))
     \<and> (\<forall>j. k \<le> j \<and> j < length items \<longrightarrow> messageId (items ! j) \<notin> set (scannedEmailIds w'))
     \<and> csvRecords w' = csvRecords w @ filter (\<lambda>r. message_id r \<notin> message_id ` set (csvRecords w))
          (records (processEmails (E\<lparr>shouldStop := neverStop\<rparr>) (take k items)))"
proof (intro impI, elim conjE)
  assume tok: "getAccessToken G = Inr (Some token)" "token \<noteq> []"
    and fetch: "fetchEmails G (orElse (timePeriod st) (cfg_timePeriod w))
        (min (orElse (emailLimit st) (cfg_emailLimit w) + length (getScannedIds w)) 500) = Inr emails"
    and dist: "distinct (map messageId emails)" and ids: "\<forall>e\<in>set emails. messageId e \<noteq> []"
    and items: "items = take (orElse (emailLimit st) (cfg_emailLimit w))
        (filter (\<lambda>e. messageId e \<notin> set (getScannedIds w)) emails)"
    and k: "k < length items" and run: "\<forall>j<k. \<not> shouldStop E j" and stop: "shouldStop E k"
    and res: "handleProcessEmails E G st w = (resp, w')"
  let ?n = "length emails - length (filter (\<lambda>e. messageId e \<notin> set (getScannedIds w)) emails)"
  let ?ps = "processAndSave E emails items ?n (startRun w)"
  let ?p = "processEmails (E\<lparr>shouldStop := neverStop\<rparr>) (take k items)"
  have ne: "items \<noteq> []" using k by auto
  have sub: "set items \<subseteq> set emails" using items by (auto dest: in_set_takeD)
  have ids': "\<forall>e\<in>set items. messageId e \<noteq> []" using ids sub by blast
  have h: "resp = fst ?ps" "w' = finishRun (snd ?ps)"
    using handleProcessEmails_fetched [OF tok fetch items ne, of E] res by simp_all
  from processAndSave_cancelled [OF k run stop ids', of emails ?n "startRun w"]
  obtain res0 where r0: "fst ?ps = Succeeded (Some True) res0" "r_emailDetails res0 = Some (emailDetails ?p)"
    and sc: "set (scannedEmailIds (snd ?ps)) = set (scannedEmailIds (startRun w)) \<union> messageId ` set (take k items)"
    and csv: "csvRecords (snd ?ps) = csvRecords (startRun w) @
        filter (\<lambda>r. message_id r \<notin> message_id ` set (csvRecords (startRun w))) (records ?p)"
    by blast
  have fin: "scannedEmailIds (finishRun v) = scannedEmailIds v" "csvRecords (finishRun v) = csvRecords v" for v
    by (simp_all add: finishRun_def)
  have st: "scannedEmailIds (startRun w) = scannedEmailIds w" "csvRecords (startRun w) = csvRecords w"
    by (simp_all add: startRun_def)
  have len: "length (take k items) = k" using k by simp
  have log: "length (emailDetails ?p) = k \<and> map index (emailDetails ?p) = [1 ..< k + 1]
        \<and> map i_subject (emailDetails ?p) = map subject (take k items)
        \<and> map i_from (emailDetails ?p) = map sender (take k items)
        \<and> map i_date (emailDetails ?p) = map date (take k items)"
    using processEmails_entries [of E "take k items"] processEmails_log_length [of E "take k items"]
    unfolding len by blast
  have A: "\<exists>res log. resp = Succeeded (Some True) res \<and> r_emailDetails res = Some log
        \<and> log = emailDetails ?p
        \<and> length log = k \<and> map index log = [1 ..< k + 1]
        \<and> map i_subject log = map subject (take k items)
        \<and> map i_from log = map sender (take k items)
        \<and> map i_date log = map date (take k items)"
    using h r0 log by blast
  have B: "set (scannedEmailIds w') = set (scannedEmailIds w) \<union> messageId ` set (take k items)"
    using h sc by (simp add: fin st)
  have C: "\<forall>j<k. messageId (items ! j) \<in> set (scannedEmailIds w')"
  proof (intro allI impI)
    fix j assume "j < k"
    then have "items ! j \<in> set (take k items)" using k by (simp add: in_set_conv_nth) (metis len nth_take)
    then show "messageId (items ! j) \<in> set (scannedEmailIds w')" using B by blast
  qed
  have dmap: "distinct (map messageId items)"
  proof -
    have "distinct (map messageId (filter (\<lambda>e. messageId e \<notin> set (getScannedIds w)) emails))"
      using dist by (simp add: distinct_map_filter)
    then show ?thesis unfolding items by (simp add: take_map [symmetric] del: take_map)
  qed
  have D: "\<forall>j. k \<le> j \<and> j < length items \<longrightarrow> messageId (items ! j) \<notin> set (scannedEmailIds w')"
  proof (intro allI impI)
    fix j assume j: "k \<le> j \<and> j < length items"
    have mem: "items ! j \<in> set items" using j by simp
    then have "items ! j \<in> set (filter (\<lambda>e. messageId e \<notin> set (getScannedIds w)) emails)"
      unfolding items by (auto dest: in_set_takeD)
    then have old: "messageId (items ! j) \<notin> set (scannedEmailIds w)"
      by (simp add: getScannedIds_def set_newSet)
    have new: "messageId (items ! j) \<notin> messageId ` set (take k items)"
    proof
      assume "messageId (items ! j) \<in> messageId ` set (take k items)"
      then obtain e where e: "e \<in> set (take k items)" "messageId e = messageId (items ! j)" by auto
      then obtain i where i: "i < k" "e = items ! i"
        using k by (auto simp add: in_set_conv_nth)
      with e j k have eq: "map messageId items ! i = map messageId items ! j"
        and il: "i < length (map messageId items)" and jl: "j < length (map messageId items)"
        and neq: "i \<noteq> j"
        by simp_all
      from nth_eq_iff_index_eq [OF dmap il jl] eq neq show False by blast
    qed
    from old new B show "messageId (items ! j) \<notin> set (scannedEmailIds w')" by blast
  qed
  have F: "csvRecords w' = csvRecords w @ filter (\<lambda>r. message_id r \<notin> message_id ` set (csvRecords w))
          (records ?p)"
    using h csv by (simp add: fin st)
  from A B C D F
  show "(\<exists>res log. resp = Succeeded (Some True) res \<and> r_emailDetails res = Some log
        \<and> log = emailDetails ?p
        \<and> length log = k \<and> map index log = [1 ..< k + 1]
        \<and> map i_subject log = map subject (take k items)
        \<and> map i_from log = map sender (take k items)
        \<and> map i_date log = map date (take k items))
     \<and> set (scannedEmailIds w') = set (scannedEmailIds w) \<union> messageId ` set (take k items)
     \<and> (\<forall>j<k. messageId (items ! j) \<in> set (scannedEmailIds w'))
     \<and> (\<forall>j. k \<le> j \<and> j < length items \<longrightarrow> messageId (items ! j) \<notin> set (scannedEmailIds w'))
     \<and> csvRecords w' = csvRecords w @ filter (\<lambda>r. message_id r \<notin> message_id ` set (csvRecords w))
          (records ?p)"
    by blast
qed

theorem cancellation_after_item_k_witness:
  "getAccessToken (demoGmail [demoEmail, laterEmail]) = Inr (Some (js ''token''))
   \<and> fetchEmails (demoGmail [demoEmail, laterEmail]) 14 50 = Inr [demoEmail, laterEmail]
   \<and> distinct (map messageId [demoEmail, laterEmail])
   \<and> \<not> shouldStop cancelEnv 0 \<and> shouldStop cancelEnv 1
   \<and> messageId demoEmail \<in> set (scannedEmailIds (snd (handleProcessEmails cancelEnv
         (demoGmail [demoEmail, laterEmail]) demoSettings demoWorker)))
   \<and> messageId laterEmail \<notin> set (scannedEmailIds (snd (handleProcessEmails cancelEnv
         (demoGmail [demoEmail, laterEmail]) demoSettings demoWorker)))"
proof -
  let ?G = "demoGmail [demoEmail, laterEmail]"
  let ?items = "[demoEmail, laterEmail]"
  let ?run = "handleProcessEmails cancelEnv ?G demoSettings demoWorker"
  have tok: "getAccessToken ?G = Inr (Some (js ''token''))" "js ''token'' \<noteq> []"
    by (simp_all add: demoGmail_def js_def)
  have fetch: "fetchEmails ?G (orElse (timePeriod demoSettings) (cfg_timePeriod demoWorker))
        (min (orElse (emailLimit demoSettings) (cfg_emailLimit demoWorker)
              + length (getScannedIds demoWorker)) 500) = Inr ?items"
    by (simp add: worker_simps)
  have fetch': "fetchEmails ?G 14 50 = Inr ?items"
    by (simp add: worker_simps)
  have dist: "distinct (map messageId ?items)"
    by (simp add: demoEmail_def laterEmail_def js_def)
  have ids: "\<forall>e\<in>set ?items. messageId e \<noteq> []"
    by (simp add: demoEmail_def laterEmail_def js_def)
  have items: "?items = take (orElse (emailLimit demoSettings) (cfg_emailLimit demoWorker))
        (filter (\<lambda>e. messageId e \<notin> set (getScannedIds demoWorker)) ?items)"
    by (simp add: worker_simps)
  have k: "(1::nat) < length ?items" by simp
  have run: "\<forall>j<1. \<not> shouldStop cancelEnv j" and r0: "\<not> shouldStop cancelEnv 0"
    and stop: "shouldStop cancelEnv 1"
    by (simp_all add: cancelEnv_def stopAfter_def)
  have res: "?run = (fst ?run, snd ?run)" by simp
  from cancellation_after_item_k [of ?G "js ''token''" demoSettings demoWorker ?items ?items 1
      cancelEnv "fst ?run" "snd ?run"] tok fetch dist ids items k run stop res
  have C: "\<forall>j<1. messageId (?items ! j) \<in> set (scannedEmailIds (snd ?run))"
    and D: "\<forall>j. 1 \<le> j \<and> j < length ?items \<longrightarrow> messageId (?items ! j) \<notin> set (scannedEmailIds (snd ?run))"
    by blast+
  from C have c: "messageId demoEmail \<in> set (scannedEmailIds (snd ?run))" by simp
  from D [rule_format, of 1] have "messageId (?items ! 1) \<notin> set (scannedEmailIds (snd ?run))"
    by simp
  then have d: "messageId laterEmail \<notin> set (scannedEmailIds (snd ?run))" by simp
  from tok fetch' dist r0 stop c d show ?thesis by blast
qed

section \<open>Export and parse\<close>

lemma parseLoop_step:
  "parseLoop (c # xs) vals cur q =
     (if c = 34 \<and> q \<and> xs \<noteq> [] \<and> hd xs = 34 then parseLoop (tl xs) vals (cur @ [34]) q
      else if c = 34 then parseLoop xs vals cur (\<not> q)
      else if c = 44 \<and> \<not> q then parseLoop xs (vals @ [cur]) [] q
      else parseLoop xs vals (cur @ [c]) q)"
  by (cases xs) simp_all

lemma parseLoop_raw:
  "34 \<notin> set v \<Longrightarrow> 44 \<notin> set v \<Longrightarrow>
     parseLoop (v @ rest) vals cur False = parseLoop rest vals (cur @ v) False"
proof (induction v arbitrary: cur)
  case Nil
  show ?case by simp
next
  case (Cons c v)
  then have "parseLoop ((c # v) @ rest) vals cur False = parseLoop (v @ rest) vals (cur @ [c]) False"
    by (simp add: parseLoop_step del: parseLoop.simps)
  with Cons show ?case by simp
qed

lemma parseLoop_in_quotes:
  "rest = [] \<or> hd rest \<noteq> 34 \<Longrightarrow>
     parseLoop (doubleQuotes v @ 34 # rest) vals cur True = parseLoop rest vals (cur @ v) False"
proof (induction v arbitrary: cur)
  case Nil
  then show ?case by (auto simp add: doubleQuotes_def parseLoop_step simp del: parseLoop.simps)
next
  case (Cons c v)
  show ?case
  proof (cases "c = 34")
    case True
    have "parseLoop (doubleQuotes (c # v) @ 34 # rest) vals cur True
        = parseLoop (34 # 34 # (doubleQuotes v @ 34 # rest)) vals cur True"
      using True by (simp add: doubleQuotes_def)
    also have "\<dots> = parseLoop (doubleQuotes v @ 34 # rest) vals (cur @ [34]) True"
      by (simp add: parseLoop_step del: parseLoop.simps)
    also have "\<dots> = parseLoop rest vals ((cur @ [34]) @ v) False"
      using Cons.IH [OF Cons.prems] .
    finally show ?thesis using True by simp
  next
    case False
    have "parseLoop (doubleQuotes (c # v) @ 34 # rest) vals cur True
        = parseLoop (c # (doubleQuotes v @ 34 # rest)) vals cur True"
      using False by (simp add: doubleQuotes_def)
    also have "\<dots> = parseLoop (doubleQuotes v @ 34 # rest) vals (cur @ [c]) True"
      using False by (simp add: parseLoop_step del: parseLoop.simps)
    also have "\<dots> = parseLoop rest vals ((cur @ [c]) @ v) False"
      using Cons.IH [OF Cons.prems] .
    finally show ?thesis by simp
  qed
qed

lemma parseLoop_csvQuote:
  "rest = [] \<or> hd rest \<noteq> 34 \<Longrightarrow>
     parseLoop (csvQuote v @ rest) vals cur False = parseLoop rest vals (cur @ v) False"
proof (cases "44 \<in> set v \<or> 34 \<in> set v \<or> 10 \<in> set v")
  case True
  assume r: "rest = [] \<or> hd rest \<noteq> 34"
  have "parseLoop (csvQuote v @ rest) vals cur False
      = parseLoop (34 # (doubleQuotes v @ 34 # rest)) vals cur False"
    using True by (simp add: csvQuote_def)
  also have "\<dots> = parseLoop (doubleQuotes v @ 34 # rest) vals cur True"
    by (simp add: parseLoop_step del: parseLoop.simps)
  also have "\<dots> = parseLoop rest vals (cur @ v) False"
    using parseLoop_in_quotes [OF r] .
  finally show ?thesis .
next
  case False
  then show ?thesis by (simp add: csvQuote_def parseLoop_raw)
qed

lemma parseLoop_join:
  "parseLoop (joinComma (map csvQuote (v # vs))) vals [] False = vals @ v # vs"
proof (induction vs arbitrary: v vals)
  case Nil
  have "parseLoop (csvQuote v @ []) vals [] False = parseLoop [] vals ([] @ v) False"
    by (rule parseLoop_csvQuote) simp
  then show ?case by simp
next
  case (Cons w ws)
  have "parseLoop (joinComma (map csvQuote (v # w # ws))) vals [] False
      = parseLoop (csvQuote v @ 44 # joinComma (map csvQuote (w # ws))) vals [] False"
    by simp
  also have "\<dots> = parseLoop (44 # joinComma (map csvQuote (w # ws))) vals ([] @ v) False"
    by (rule parseLoop_csvQuote) simp
  also have "\<dots> = parseLoop (joinComma (map csvQuote (w # ws))) (vals @ [v]) [] False"
    by (simp add: parseLoop_step del: parseLoop.simps)
  also have "\<dots> = (vals @ [v]) @ w # ws" by (rule Cons.IH)
  finally show ?case by simp
qed

lemma parseCSVLine_join: "vs \<noteq> [] \<Longrightarrow> parseCSVLine (joinComma (map csvQuote vs)) = vs"
  using parseLoop_join [of "hd vs" "tl vs" "[]"] by (simp add: parseCSVLine_def)

lemma formatTimestamp_empty: "formatTimestamp E [] = []"
  by (simp add: formatTimestamp_def)

lemma csvValue_csvQuote:
  "csvValue E r h =
     csvQuote (if (h = js ''email_date'' \<or> h = js ''processed_timestamp'') \<and> orEmpty (getField r h) \<noteq> []
               then formatTimestamp E (orEmpty (getField r h)) else orEmpty (getField r h))"
  unfolding csvValue_def csvQuote_def Let_def by (rule refl)

lemma header_fields:
  "orEmpty (getField r (js ''email_date'')) = email_date r"
  "orEmpty (getField r (js ''company'')) = orEmpty (company r)"
  "orEmpty (getField r (js ''position'')) = orEmpty (position r)"
  "orEmpty (getField r (js ''email_title'')) = email_title r"
  "orEmpty (getField r (js ''processed_timestamp'')) = processed_timestamp r"
  "orEmpty (getField r (js ''message_id'')) = message_id r"
  by (simp_all add: getField_def orEmpty_def js_def)

lemma header_is_date:
  "js ''company'' \<noteq> js ''email_date''" "js ''company'' \<noteq> js ''processed_timestamp''"
  "js ''position'' \<noteq> js ''email_date''" "js ''position'' \<noteq> js ''processed_timestamp''"
  "js ''email_title'' \<noteq> js ''email_date''" "js ''email_title'' \<noteq> js ''processed_timestamp''"
  "js ''message_id'' \<noteq> js ''email_date''" "js ''message_id'' \<noteq> js ''processed_timestamp''"
  by (simp_all add: js_def)

lemma csvValue_headers:
  "csvValue E r (js ''email_date'') = csvQuote (formatTimestamp E (email_date r))"
  "csvValue E r (js ''company'') = csvQuote (orEmpty (company r))"
  "csvValue E r (js ''position'') = csvQuote (orEmpty (position r))"
  "csvValue E r (js ''email_title'') = csvQuote (email_title r)"
  "csvValue E r (js ''processed_timestamp'') = csvQuote (formatTimestamp E (processed_timestamp r))"
  "csvValue E r (js ''message_id'') = csvQuote (message_id r)"
proof -
  show "csvValue E r (js ''email_date'') = csvQuote (formatTimestamp E (email_date r))"
    by (cases "email_date r = []")
      (simp_all only: csvValue_csvQuote header_fields formatTimestamp_empty simp_thms if_True if_False)
  show "csvValue E r (js ''processed_timestamp'') = csvQuote (formatTimestamp E (processed_timestamp r))"
    by (cases "processed_timestamp r = []")
      (simp_all only: csvValue_csvQuote header_fields formatTimestamp_empty simp_thms if_True if_False)
  show "csvValue E r (js ''company'') = csvQuote (orEmpty (company r))"
    by (simp only: csvValue_csvQuote header_fields header_is_date simp_thms if_False)
  show "csvValue E r (js ''position'') = csvQuote (orEmpty (position r))"
    by (simp only: csvValue_csvQuote header_fields header_is_date simp_thms if_False)
  show "csvValue E r (js ''email_title'') = csvQuote (email_title r)"
    by (simp only: csvValue_csvQuote header_fields header_is_date simp_thms if_False)
  show "csvValue E r (js ''message_id'') = csvQuote (message_id r)"
    by (simp only: csvValue_csvQuote header_fields header_is_date simp_thms if_False)
qed

lemma csvValues:
  "map (csvValue E r) headers =
     map csvQuote [formatTimestamp E (email_date r), orEmpty (company r), orEmpty (position r),
                   email_title r, formatTimestamp E (processed_timestamp r), message_id r]"
  by (simp only: headers_def list.map csvValue_headers)

lemma recordToCSVLine_parse:
  "parseCSVLine (recordToCSVLine E r) =
     [formatTimestamp E (email_date r), orEmpty (company r), orEmpty (position r),
      email_title r, formatTimestamp E (processed_timestamp r), message_id r]"
  unfolding recordToCSVLine_def csvValues by (rule parseCSVLine_join) simp

lemma recordOfValues_line:
  "recordOfValues (parseCSVLine (recordToCSVLine E r)) = displayed E r"
  by (simp add: recordToCSVLine_parse recordOfValues_def displayed_def)

lemma digits_no_newline: "10 \<notin> set (digits n)"
proof (induction n rule: digits.induct)
  case (1 n)
  show ?case
  proof (cases "n < 10")
    case True
    then show ?thesis by (subst digits.simps) simp
  next
    case False
    with 1 have "10 \<notin> set (digits (n div 10))" by simp
    with False show ?thesis by (subst digits.simps) simp
  qed
qed

lemma padStart2_no_newline: "10 \<notin> set s \<Longrightarrow> 10 \<notin> set (padStart2 s)"
  by (simp add: padStart2_def)

lemma pad_digits_no_newline: "10 \<notin> set (padStart2 (digits n))"
  by (simp add: padStart2_no_newline digits_no_newline)

lemma showInt_no_newline: "10 \<notin> set (showInt i)"
  by (simp add: showInt_def digits_no_newline)

lemma NaN_no_newline: "10 \<notin> set (js ''NaN-NaN-NaN NaN:NaN:NaN'')"
  by (simp add: js_def)

lemma formatTimestamp_no_newline: "10 \<notin> set (formatTimestamp E s)"
proof (cases "s = []")
  case True
  then show ?thesis by (simp add: formatTimestamp_def)
next
  case False
  show ?thesis
  proof (cases "newDate E s")
    case None
    with False show ?thesis by (simp add: formatTimestamp_def NaN_no_newline)
  next
    case (Some d)
    with False show ?thesis
      by (simp add: formatTimestamp_def pad_digits_no_newline showInt_no_newline)
  qed
qed

lemma doubleQuotes_set: "set (doubleQuotes v) \<subseteq> insert 34 (set v)"
  by (auto simp add: doubleQuotes_def split: if_splits)

lemma csvQuote_no_newline: "10 \<notin> set v \<Longrightarrow> 10 \<notin> set (csvQuote v)"
  using doubleQuotes_set [of v] by (auto simp add: csvQuote_def)

lemma joinComma_no_newline: "(\<forall>v\<in>set vs. 10 \<notin> set v) \<Longrightarrow> 10 \<notin> set (joinComma vs)"
  by (induction vs rule: joinComma.induct) auto

lemma joinComma_snoc: "vs \<noteq> [] \<Longrightarrow> joinComma (vs @ [v]) = joinComma vs @ 44 # v"
  by (induction vs rule: joinComma.induct) auto

lemma csvQuote_last: "v \<noteq> [] \<Longrightarrow> \<not> isWhiteSpace (last v) \<Longrightarrow> \<not> isWhiteSpace (last (csvQuote v))"
proof (cases "44 \<in> set v \<or> 34 \<in> set v \<or> 10 \<in> set v")
  case True
  then have "last (csvQuote v) = 34" by (simp add: csvQuote_def)
  then show ?thesis by (simp add: isWhiteSpace_def)
next
  case False
  assume "\<not> isWhiteSpace (last v)"
  with False show ?thesis by (simp add: csvQuote_def)
qed

lemma csvQuote_empty: "csvQuote v = [] \<longleftrightarrow> v = []"
  by (auto simp add: csvQuote_def)

lemma recordToCSVLine_shape:
  "\<exists>x. recordToCSVLine E r = x @ 44 # csvQuote (message_id r)"
proof -
  let ?vs = "map csvQuote [formatTimestamp E (email_date r), orEmpty (company r),
     orEmpty (position r), email_title r, formatTimestamp E (processed_timestamp r)]"
  have "recordToCSVLine E r = joinComma (?vs @ [csvQuote (message_id r)])"
    unfolding recordToCSVLine_def csvValues by simp
  also have "\<dots> = joinComma ?vs @ 44 # csvQuote (message_id r)"
    by (rule joinComma_snoc) simp
  finally show ?thesis by blast
qed

lemma comma_not_space: "\<not> isWhiteSpace 44"
  by (simp add: isWhiteSpace_def)

lemma recordToCSVLine_last:
  assumes "message_id r \<noteq> [] \<longrightarrow> \<not> isWhiteSpace (last (message_id r))"
  shows "recordToCSVLine E r \<noteq> [] \<and> \<not> isWhiteSpace (last (recordToCSVLine E r))"
proof -
  obtain x where x: "recordToCSVLine E r = x @ 44 # csvQuote (message_id r)"
    using recordToCSVLine_shape by blast
  show ?thesis
  proof (cases "message_id r = []")
    case True
    then have "csvQuote (message_id r) = []" by (simp add: csvQuote_empty)
    with x have "recordToCSVLine E r = x @ [44]" by simp
    then show ?thesis by (simp add: comma_not_space)
  next
    case False
    with assms have "\<not> isWhiteSpace (last (csvQuote (message_id r)))"
      by (simp add: csvQuote_last)
    moreover have "csvQuote (message_id r) \<noteq> []" using False by (simp add: csvQuote_empty)
    ultimately show ?thesis using x by simp
  qed
qed

lemma recordToCSVLine_no_newline:
  assumes "10 \<notin> set (orEmpty (company r))" "10 \<notin> set (orEmpty (position r))"
    "10 \<notin> set (email_title r)" "10 \<notin> set (message_id r)"
  shows "10 \<notin> set (recordToCSVLine E r)"
proof -
  have "\<forall>v\<in>set [formatTimestamp E (email_date r), orEmpty (company r), orEmpty (position r),
      email_title r, formatTimestamp E (processed_timestamp r), message_id r]. 10 \<notin> set v"
    using assms by (simp add: formatTimestamp_no_newline)
  then have "\<forall>v\<in>set (map csvQuote [formatTimestamp E (email_date r), orEmpty (company r),
      orEmpty (position r), email_title r, formatTimestamp E (processed_timestamp r), message_id r]).
      10 \<notin> set v"
    using csvQuote_no_newline by (simp del: list.map)
  then show ?thesis
    unfolding recordToCSVLine_def csvValues by (rule joinComma_no_newline)
qed

lemma recordToCSVLine_not_blank: "trim (recordToCSVLine E r) \<noteq> []"
proof -
  obtain x where x: "recordToCSVLine E r = x @ [44] @ csvQuote (message_id r)"
    using recordToCSVLine_shape by auto
  have "\<exists>u' v'. trim (x @ [44] @ csvQuote (message_id r)) = u' @ [44] @ v'"
    by (rule trim_keeps) (simp_all add: comma_not_space)
  with x show ?thesis by auto
qed

lemma trim_exact:
  assumes "\<forall>c\<in>set a. isWhiteSpace c" "\<forall>c\<in>set b. isWhiteSpace c"
    and "x \<noteq> []" "\<not> isWhiteSpace (hd x)" "\<not> isWhiteSpace (last x)"
  shows "trim (a @ x @ b) = x"
proof -
  have s: "dropWhile isWhiteSpace (a @ x @ b) = x @ b"
    using assms(1,3,4) by (cases x) (simp_all add: dropWhile_append)
  have "dropWhile isWhiteSpace (rev (x @ b)) = dropWhile isWhiteSpace (rev x)"
    using assms(2) by (simp add: dropWhile_append)
  also have "\<dots> = rev x"
    using assms(3,5) by (cases x rule: rev_cases) simp_all
  finally show ?thesis by (simp add: trim_def trimStart_def trimEnd_def s)
qed

lemma splitLines_line: "10 \<notin> set l \<Longrightarrow> splitLines (l @ 10 # rest) = l # splitLines rest"
proof (induction l)
  case Nil
  show ?case by simp
next
  case (Cons c l)
  then show ?case by simp
qed

lemma splitLines_single: "10 \<notin> set l \<Longrightarrow> splitLines l = [l]"
  by (induction l) simp_all

lemma splitLines_joinLines:
  "ls \<noteq> [] \<Longrightarrow> (\<forall>l\<in>set ls. 10 \<notin> set l) \<Longrightarrow> splitLines (joinLines ls) = ls"
  by (induction ls rule: joinLines.induct) (simp_all add: splitLines_single splitLines_line)

lemma joinLines_hd: "l \<noteq> [] \<Longrightarrow> joinLines (l # ls) \<noteq> [] \<and> hd (joinLines (l # ls)) = hd l"
  by (cases ls) simp_all

lemma joinLines_nonempty: "ls \<noteq> [] \<Longrightarrow> last ls \<noteq> [] \<Longrightarrow> joinLines ls \<noteq> []"
  by (induction ls rule: joinLines.induct) auto

lemma joinLines_last:
  "ls \<noteq> [] \<Longrightarrow> last ls \<noteq> [] \<Longrightarrow> last (joinLines ls) = last (last ls)"
proof (induction ls rule: joinLines.induct)
  case 1
  then show ?case by simp
next
  case (2 l)
  then show ?case by simp
next
  case (3 l m ls)
  then have "joinLines (m # ls) \<noteq> []" using joinLines_nonempty [of "m # ls"] by simp
  with 3 show ?case by simp
qed

lemma concat_lines: "ls \<noteq> [] \<Longrightarrow> concat (map (\<lambda>l. l @ [10]) ls) = joinLines ls @ [10]"
  by (induction ls rule: joinLines.induct) simp_all

lemma foldl_content:
  "foldl (\<lambda>content r. content @ f r @ [10]) start rs = start @ concat (map (\<lambda>l. l @ [10]) (map f rs))"
  by (induction rs arbitrary: start) simp_all

lemma exportContent_lines:
  "exportContent E rs = BOM @ joinLines (joinComma headers # map (recordToCSVLine E) rs) @ [10]"
proof -
  let ?ls = "joinComma headers # map (recordToCSVLine E) rs"
  have "exportContent E rs = BOM @ concat (map (\<lambda>l. l @ [10]) ?ls)"
    by (simp add: exportContent_def foldl_content)
  moreover have "concat (map (\<lambda>l. l @ [10]) ?ls) = joinLines ?ls @ [10]"
    by (rule concat_lines) simp
  ultimately show ?thesis by (simp only:)
qed

lemma header_line:
  "joinComma headers \<noteq> []" "\<not> isWhiteSpace (hd (joinComma headers))"
  "\<not> isWhiteSpace (last (joinComma headers))" "10 \<notin> set (joinComma headers)"
  by (simp_all add: headers_def js_def isWhiteSpace_def)

lemma BOM_space: "\<forall>c\<in>set BOM. isWhiteSpace c"
  by (simp add: BOM_def isWhiteSpace_def)

lemma newline_space: "\<forall>c\<in>set [10]. isWhiteSpace c"
  by (simp add: isWhiteSpace_def)

lemma parse_lines:
  "concat (map (\<lambda>line. if trim line = [] then []
                  else (let values = parseCSVLine line
                        in if length values = length headers then [recordOfValues values] else []))
               (map (recordToCSVLine E) rs))
     = map (displayed E) rs"
proof (induction rs)
  case Nil
  show ?case by simp
next
  case (Cons r rs)
  have six: "length (parseCSVLine (recordToCSVLine E r)) = length headers"
    by (simp add: recordToCSVLine_parse headers_def)
  show ?case
    using Cons six
    by (simp add: recordToCSVLine_not_blank recordOfValues_line Let_def del: recordToCSVLine_parse)
qed

lemma parseCSV_exportContent:
  assumes nl: "\<forall>r\<in>set rs. 10 \<notin> set (orEmpty (company r)) \<and> 10 \<notin> set (orEmpty (position r))
      \<and> 10 \<notin> set (email_title r) \<and> 10 \<notin> set (message_id r)"
    and lst: "rs \<noteq> [] \<longrightarrow> message_id (last rs) \<noteq> [] \<longrightarrow> \<not> isWhiteSpace (last (message_id (last rs)))"
  shows "parseCSV (exportContent E rs) = map (displayed E) rs"
proof -
  let ?ls = "map (recordToCSVLine E) rs"
  let ?all = "joinComma headers # ?ls"
  let ?x = "joinLines ?all"
  have content: "exportContent E rs = BOM @ ?x @ [10]" by (rule exportContent_lines)
  have lastline: "last ?all \<noteq> [] \<and> \<not> isWhiteSpace (last (last ?all))"
  proof (cases "rs = []")
    case True
    then show ?thesis by (simp add: header_line)
  next
    case False
    then have "last ?all = recordToCSVLine E (last rs)" by (simp add: last_map)
    moreover have "message_id (last rs) \<noteq> [] \<longrightarrow> \<not> isWhiteSpace (last (message_id (last rs)))"
      using lst False by simp
    ultimately show ?thesis using recordToCSVLine_last [of "last rs" E] by simp
  qed
  have x_ne: "?x \<noteq> []" using lastline joinLines_nonempty [of ?all] by simp
  have x_hd: "\<not> isWhiteSpace (hd ?x)" using joinLines_hd [of "joinComma headers" ?ls] header_line by simp
  have x_last: "\<not> isWhiteSpace (last ?x)" using lastline joinLines_last [of ?all] by simp
  have tr: "trim (exportContent E rs) = ?x"
    unfolding content using BOM_space newline_space x_ne x_hd x_last by (rule trim_exact)
  have no_nl: "\<forall>l\<in>set ?all. 10 \<notin> set l"
    using nl header_line(4) by (auto simp add: recordToCSVLine_no_newline)
  have sp: "splitLines ?x = ?all" using no_nl by (intro splitLines_joinLines) simp_all
  have ne: "exportContent E rs \<noteq> []" unfolding content by (simp add: BOM_def)
  have "parseCSV (exportContent E rs) =
      (if length ?all \<le> 1 then []
       else concat (map (\<lambda>line. if trim line = [] then []
                  else (let values = parseCSVLine line
                        in if length values = length headers then [recordOfValues values] else []))
               (drop 1 ?all)))"
    using ne x_ne unfolding parseCSV_def tr sp Let_def by (simp only: simp_thms if_False)
  also have "\<dots> = concat (map (\<lambda>line. if trim line = [] then []
                  else (let values = parseCSVLine line
                        in if length values = length headers then [recordOfValues values] else []))
               ?ls)"
    by (cases rs) simp_all
  also have "\<dots> = map (displayed E) rs" by (rule parse_lines)
  finally show ?thesis .
qed

text \<open>
  C9, as amended. For every list of N stored records in which no company, position, title
  or message id contains a newline and the last message id does not end in white space,
  parsing the exported content yields N records, in order, whose company, position, title
  and message id equal the originals (an absent company or position reads as the empty
  string), commas and quotes included, and whose two timestamp columns hold the
  \<open>MM-DD-YYYY HH:MM:SS\<close> display form of the originals, not the stored values.
\<close>

theorem export_reparse_display_form:
  "(\<forall>r\<in>set rs. 10 \<notin> set (orEmpty (company r)) \<and> 10 \<notin> set (orEmpty (position r))
      \<and> 10 \<notin> set (email_title r) \<and> 10 \<notin> set (message_id r))
   \<and> (rs \<noteq> [] \<longrightarrow> message_id (last rs) \<noteq> [] \<longrightarrow> \<not> isWhiteSpace (last (message_id (last rs))))
   \<longrightarrow> parseCSV (exportContent E rs) = map (displayed E) rs
       \<and> length (parseCSV (exportContent E rs)) = length rs"
  using parseCSV_exportContent [of rs E] by simp

lemma demo_formats:
  "formatTimestamp (demoEnv noAnswers) (js ''2024-01-15T10:30:00.000Z'') = js ''01-15-2024 10:30:00''"
  "formatTimestamp (demoEnv noAnswers) (js ''2024-01-16T08:00:00.000Z'') = js ''01-16-2024 08:00:00''"
  by (simp_all add: formatTimestamp_def demoEnv_def demoDate_def js_def padStart2_def showInt_def
      digits.simps)

theorem export_reparse_display_form_witness:
  "10 \<notin> set (orEmpty (company commaRecord)) \<and> 10 \<notin> set (orEmpty (position commaRecord))
   \<and> 10 \<notin> set (email_title commaRecord) \<and> 10 \<notin> set (message_id commaRecord)
   \<and> \<not> isWhiteSpace (last (message_id commaRecord))
   \<and> parseCSV (exportContent (demoEnv noAnswers) [commaRecord])
       = [\<lparr>message_id = js ''18d0c3'', company = Some [],
           position = Some (js ''Engineer, Senior''), email_title = js ''Your application to Initech'',
           email_date = js ''01-16-2024 08:00:00'',
           processed_timestamp = js ''01-16-2024 08:00:00''\<rparr>]"
proof -
  have a: "10 \<notin> set (orEmpty (company commaRecord))" "10 \<notin> set (orEmpty (position commaRecord))"
    "10 \<notin> set (email_title commaRecord)" "10 \<notin> set (message_id commaRecord)"
    by (simp_all add: commaRecord_def orEmpty_def js_def)
  have b: "\<not> isWhiteSpace (last (message_id commaRecord))"
    by (simp add: commaRecord_def js_def isWhiteSpace_def)
  have d: "displayed (demoEnv noAnswers) commaRecord
      = \<lparr>message_id = js ''18d0c3'', company = Some [],
           position = Some (js ''Engineer, Senior''), email_title = js ''Your application to Initech'',
           email_date = js ''01-16-2024 08:00:00'',
           processed_timestamp = js ''01-16-2024 08:00:00''\<rparr>"
    by (simp add: displayed_def commaRecord_def demo_formats orEmpty_def)
  from export_reparse_display_form [of "[commaRecord]" "demoEnv noAnswers"] a b
  have "parseCSV (exportContent (demoEnv noAnswers) [commaRecord])
      = map (displayed (demoEnv noAnswers)) [commaRecord]"
    by simp
  with d a b show ?thesis by simp
qed

text \<open>One stored record with an ISO timestamp comes back with the timestamp in display
  form, so not equal to the original.\<close>

theorem export_reformats_dates_counterexample:
  "email_date acmeRecord = js ''2024-01-15T10:30:00.000Z''
   \<and> map email_date (parseCSV (exportContent (demoEnv noAnswers) [acmeRecord]))
       = [js ''01-15-2024 10:30:00'']
   \<and> parseCSV (exportContent (demoEnv noAnswers) [acmeRecord]) \<noteq> [acmeRecord]"
proof -
  have a: "\<forall>r\<in>set [acmeRecord]. 10 \<notin> set (orEmpty (company r)) \<and> 10 \<notin> set (orEmpty (position r))
      \<and> 10 \<notin> set (email_title r) \<and> 10 \<notin> set (message_id r)"
    by (simp add: acmeRecord_def orEmpty_def js_def)
  have b: "[acmeRecord] \<noteq> [] \<longrightarrow> message_id (last [acmeRecord]) \<noteq> [] \<longrightarrow>
      \<not> isWhiteSpace (last (message_id (last [acmeRecord])))"
    by (simp add: acmeRecord_def js_def isWhiteSpace_def)
  have p: "parseCSV (exportContent (demoEnv noAnswers) [acmeRecord])
      = [displayed (demoEnv noAnswers) acmeRecord]"
    using parseCSV_exportContent [OF a b] by simp
  have d: "email_date (displayed (demoEnv noAnswers) acmeRecord) = js ''01-15-2024 10:30:00''"
    by (simp add: displayed_def acmeRecord_def demo_formats)
  have e: "email_date acmeRecord = js ''2024-01-15T10:30:00.000Z''"
    by (simp add: acmeRecord_def)
  have "js ''01-15-2024 10:30:00'' \<noteq> js ''2024-01-15T10:30:00.000Z''" by (simp add: js_def)
  with d e have "displayed (demoEnv noAnswers) acmeRecord \<noteq> acmeRecord" by auto
  with p d e show ?thesis by simp
qed

end
